theory Spec2Isabelle
  imports Main "HOL-Library.AList" "HOL-Library.Sublist"
begin

section \<open>JavaScript strings and JSON values\<close>

text \<open>
  A JavaScript string is a sequence of UTF-16 code units, and \<open>length\<close>, the regular
  expression of \<open>toLabelString\<close> and \<open>JSON.stringify\<close> all work on code units. A code
  unit is modelled as a natural number (below 65536), a string as the list of its code
  units; \<open>str\<close> gives the code units of an ASCII literal.
\<close>

type_synonym jsstring = "nat list"

definition str :: "string \<Rightarrow> jsstring" where
  "str s = map of_char s"

abbreviation (input) DQUOTE :: nat where "DQUOTE \<equiv> 34"
abbreviation (input) DOLLAR :: nat where "DOLLAR \<equiv> 36"
abbreviation (input) BACKSLASH :: nat where "BACKSLASH \<equiv> 92"
abbreviation (input) NEWLINE :: nat where "NEWLINE \<equiv> 10"
abbreviation (input) SPACE :: nat where "SPACE \<equiv> 32"
abbreviation (input) COMMA :: nat where "COMMA \<equiv> 44"
abbreviation (input) COLON :: nat where "COLON \<equiv> 58"
abbreviation (input) MINUS :: nat where "MINUS \<equiv> 45"
abbreviation (input) LBRACKET :: nat where "LBRACKET \<equiv> 91"
abbreviation (input) RBRACKET :: nat where "RBRACKET \<equiv> 93"
abbreviation (input) LBRACE :: nat where "LBRACE \<equiv> 123"
abbreviation (input) RBRACE :: nat where "RBRACE \<equiv> 125"

text \<open>
  The JavaScript engine, as far as \<open>JSON\<close> needs it: its Number values \<open>'n\<close> (doubles),
  which of them are finite, Number::toString, StringToNumber on the text of a number
  literal, and the message of the SyntaxError that \<open>JSON.parse\<close> throws on a text. They
  are floating point and engine text, so they are parameters here. ECMAScript
  guarantees that Number::toString of a finite number is a decimal literal of the JSON
  grammar that StringToNumber reads back as the same number (other than the negative
  zero).
\<close>

record 'n engine =
  Number_isFinite :: "'n \<Rightarrow> bool"
  Number_toString :: "'n \<Rightarrow> jsstring"
  StringToNumber :: "jsstring \<Rightarrow> 'n"
  SyntaxError_message :: "jsstring \<Rightarrow> jsstring"

text \<open>
  The values \<open>JSON.parse\<close> produces and \<open>JSON.stringify\<close> prints. An object is the list
  of its properties in the order its own keys are listed: the keys that are array
  indices first, ascending, then the other keys in creation order.
\<close>

datatype 'n json =
    JNull
  | JBool bool
  | JNum 'n
  | JStr jsstring
  | JArr "'n json list"
  | JObj "(jsstring \<times> 'n json) list"

type_synonym 'n jobject = "(jsstring \<times> 'n json) list"

subsection \<open>JSON.stringify\<close>

definition hexdigit :: "nat \<Rightarrow> nat" where
  "hexdigit d = (if d < 10 then 48 + d else 87 + d)"

definition uescape :: "nat \<Rightarrow> jsstring" where
  "uescape c = [BACKSLASH, 117, hexdigit (c div 4096 mod 16), hexdigit (c div 256 mod 16),
                hexdigit (c div 16 mod 16), hexdigit (c mod 16)]"

definition is_high_surrogate :: "nat \<Rightarrow> bool" where
  "is_high_surrogate c = (55296 \<le> c \<and> c \<le> 56319)"

definition is_low_surrogate :: "nat \<Rightarrow> bool" where
  "is_low_surrogate c = (56320 \<le> c \<and> c \<le> 57343)"

text \<open>
  QuoteJSONString without the enclosing quotes: the quote and the backslash get a
  backslash, a control character its short escape or \<open>\u00xx\<close>, a surrogate that is not
  part of a pair its \<open>\udxxx\<close> escape; every other code unit is copied.
\<close>

fun quote_chars :: "jsstring \<Rightarrow> jsstring" where
  "quote_chars [] = []"
| "quote_chars (c # cs) =
     (if c = DQUOTE then [BACKSLASH, DQUOTE] @ quote_chars cs
      else if c = BACKSLASH then [BACKSLASH, BACKSLASH] @ quote_chars cs
      else if c = 8 then [BACKSLASH, 98] @ quote_chars cs
      else if c = 12 then [BACKSLASH, 102] @ quote_chars cs
      else if c = 10 then [BACKSLASH, 110] @ quote_chars cs
      else if c = 13 then [BACKSLASH, 114] @ quote_chars cs
      else if c = 9 then [BACKSLASH, 116] @ quote_chars cs
      else if c < 32 then uescape c @ quote_chars cs
      else if is_high_surrogate c then
        (case cs of
           [] \<Rightarrow> uescape c
         | d # ds \<Rightarrow> if is_low_surrogate d then c # d # quote_chars ds
                     else uescape c @ quote_chars cs)
      else if is_low_surrogate c then uescape c @ quote_chars cs
      else c # quote_chars cs)"

definition quote :: "jsstring \<Rightarrow> jsstring" where
  "quote s = [DQUOTE] @ quote_chars s @ [DQUOTE]"

fun join :: "jsstring \<Rightarrow> jsstring list \<Rightarrow> jsstring" where
  "join sep [] = []"
| "join sep [x] = x"
| "join sep (x # y # ys) = x @ sep @ join sep (y # ys)"

text \<open>
  \<open>JSON.stringify\<close> of one argument: the compact form, no white space. A number that
  is not finite is printed as \<open>null\<close>.
\<close>

fun JSON_stringify :: "'n engine \<Rightarrow> 'n json \<Rightarrow> jsstring"
  and stringify_elements :: "'n engine \<Rightarrow> 'n json list \<Rightarrow> jsstring list"
  and stringify_members :: "'n engine \<Rightarrow> (jsstring \<times> 'n json) list \<Rightarrow> jsstring list" where
  "JSON_stringify E JNull = str ''null''"
| "JSON_stringify E (JBool b) = (if b then str ''true'' else str ''false'')"
| "JSON_stringify E (JNum x) =
     (if Number_isFinite E x then Number_toString E x else str ''null'')"
| "JSON_stringify E (JStr s) = quote s"
| "JSON_stringify E (JArr vs) =
     [LBRACKET] @ join [COMMA] (stringify_elements E vs) @ [RBRACKET]"
| "JSON_stringify E (JObj ms) =
     [LBRACE] @ join [COMMA] (stringify_members E ms) @ [RBRACE]"
| "stringify_elements E [] = []"
| "stringify_elements E (v # vs) = JSON_stringify E v # stringify_elements E vs"
| "stringify_members E [] = []"
| "stringify_members E ((k, v) # ms) =
     (quote k @ [COLON] @ JSON_stringify E v) # stringify_members E ms"

subsection \<open>JSON.parse\<close>

definition is_ws :: "nat \<Rightarrow> bool" where
  "is_ws c = (c = SPACE \<or> c = 9 \<or> c = NEWLINE \<or> c = 13)"

definition skip_ws :: "jsstring \<Rightarrow> jsstring" where
  "skip_ws s = dropWhile is_ws s"

definition hexval :: "nat \<Rightarrow> nat option" where
  "hexval c = (if 48 \<le> c \<and> c \<le> 57 then Some (c - 48)
               else if 97 \<le> c \<and> c \<le> 102 then Some (c - 87)
               else if 65 \<le> c \<and> c \<le> 70 then Some (c - 55)
               else None)"

definition hex4 :: "nat \<Rightarrow> nat \<Rightarrow> nat \<Rightarrow> nat \<Rightarrow> nat option" where
  "hex4 a b c d =
     (case (hexval a, hexval b, hexval c, hexval d) of
        (Some x, Some y, Some z, Some w) \<Rightarrow> Some (4096 * x + 256 * y + 16 * z + w)
      | _ \<Rightarrow> None)"

definition unescape_char :: "nat \<Rightarrow> nat option" where
  "unescape_char e =
     (if e = DQUOTE then Some DQUOTE
      else if e = BACKSLASH then Some BACKSLASH
      else if e = 47 then Some 47
      else if e = 98 then Some 8
      else if e = 102 then Some 12
      else if e = 110 then Some 10
      else if e = 114 then Some 13
      else if e = 116 then Some 9
      else None)"

definition cons_char :: "nat \<Rightarrow> (jsstring \<times> jsstring) option \<Rightarrow> (jsstring \<times> jsstring) option" where
  "cons_char c r = (case r of None \<Rightarrow> None | Some (s, rest) \<Rightarrow> Some (c # s, rest))"

text \<open>
  The characters of a string after its opening quote, up to the closing quote: the
  decoded string and the text after the closing quote. A control character, an unknown
  escape and a missing closing quote are syntax errors.
\<close>

fun parse_chars :: "jsstring \<Rightarrow> (jsstring \<times> jsstring) option" where
  "parse_chars [] = None"
| "parse_chars (c # cs) =
     (if c = DQUOTE then Some ([], cs)
      else if c = BACKSLASH then
        (case cs of
           [] \<Rightarrow> None
         | e # es \<Rightarrow>
             if e = 117 then
               (case es of
                  a # b # c' # d # r \<Rightarrow>
                    (case hex4 a b c' d of
                       None \<Rightarrow> None
                     | Some u \<Rightarrow> cons_char u (parse_chars r))
                | _ \<Rightarrow> None)
             else
               (case unescape_char e of
                  None \<Rightarrow> None
                | Some u \<Rightarrow> cons_char u (parse_chars es)))
      else if c < 32 then None
      else cons_char c (parse_chars cs))"

definition is_digit :: "nat \<Rightarrow> bool" where
  "is_digit c = (48 \<le> c \<and> c \<le> 57)"

definition digits_val :: "jsstring \<Rightarrow> nat" where
  "digits_val ds = foldl (\<lambda>a d. 10 * a + (d - 48)) 0 ds"

text \<open>The optional fraction and exponent of a number: their text and what follows.\<close>

definition parse_fraction :: "jsstring \<Rightarrow> (jsstring \<times> jsstring) option" where
  "parse_fraction s =
     (case s of
        [] \<Rightarrow> Some ([], s)
      | c # t \<Rightarrow>
          if c = 46 then
            (if takeWhile is_digit t = [] then None
             else Some (c # takeWhile is_digit t, dropWhile is_digit t))
          else Some ([], s))"

definition parse_exponent :: "jsstring \<Rightarrow> (jsstring \<times> jsstring) option" where
  "parse_exponent s =
     (case s of
        [] \<Rightarrow> Some ([], s)
      | c # t \<Rightarrow>
          if c = 101 \<or> c = 69 then
            (let (sign, u) = (case t of
                                [] \<Rightarrow> ([], t)
                              | d # u' \<Rightarrow> if d = 43 \<or> d = MINUS then ([d], u') else ([], t))
             in if takeWhile is_digit u = [] then None
                else Some (c # sign @ takeWhile is_digit u, dropWhile is_digit u))
          else Some ([], s))"

text \<open>
  The text of a number literal at the start of a text, by the JSON grammar (an
  optional minus sign, digits without a leading zero, an optional fraction, an optional
  exponent), and what follows it.
\<close>

definition scan_number :: "jsstring \<Rightarrow> (jsstring \<times> jsstring) option" where
  "scan_number s =
     (let (sign, s1) = (case s of
                          [] \<Rightarrow> ([], s)
                        | c # t \<Rightarrow> if c = MINUS then ([MINUS], t) else ([], s));
          ds = takeWhile is_digit s1
      in if ds = [] \<or> (hd ds = 48 \<and> 1 < length ds) then None
         else
           (case parse_fraction (dropWhile is_digit s1) of
              None \<Rightarrow> None
            | Some (fr, s2) \<Rightarrow>
                (case parse_exponent s2 of
                   None \<Rightarrow> None
                 | Some (ex, s3) \<Rightarrow> Some (sign @ ds @ fr @ ex, s3))))"

definition parse_number :: "'n engine \<Rightarrow> jsstring \<Rightarrow> ('n json \<times> jsstring) option" where
  "parse_number E s =
     (case scan_number s of
        None \<Rightarrow> None
      | Some (t, r) \<Rightarrow> Some (JNum (StringToNumber E t), r))"

definition parse_literal :: "'n engine \<Rightarrow> jsstring \<Rightarrow> ('n json \<times> jsstring) option" where
  "parse_literal E s =
     (if take 4 s = str ''true'' then Some (JBool True, drop 4 s)
      else if take 5 s = str ''false'' then Some (JBool False, drop 5 s)
      else if take 4 s = str ''null'' then Some (JNull, drop 4 s)
      else parse_number E s)"

text \<open>
  A key that is an array index: the canonical decimal text of an integer below
  \<open>2^32 - 1\<close>.
\<close>

definition array_index :: "jsstring \<Rightarrow> nat option" where
  "array_index k =
     (if k \<noteq> [] \<and> list_all is_digit k \<and> (hd k \<noteq> 48 \<or> length k = 1) \<and>
         digits_val k < 4294967295
      then Some (digits_val k) else None)"

definition index_of :: "jsstring \<times> 'a \<Rightarrow> nat" where
  "index_of p = (case array_index (fst p) of None \<Rightarrow> 0 | Some i \<Rightarrow> i)"

text \<open>The order in which the own keys of an object are listed.\<close>

definition own_property_order :: "(jsstring \<times> 'a) list \<Rightarrow> (jsstring \<times> 'a) list" where
  "own_property_order ps =
     sort_key index_of (filter (\<lambda>p. array_index (fst p) \<noteq> None) ps) @
     filter (\<lambda>p. array_index (fst p) = None) ps"

text \<open>
  An object literal creates its properties in the order of the text; a key named twice
  keeps its place and takes the last value.
\<close>

definition make_object :: "(jsstring \<times> 'n json) list \<Rightarrow> 'n json" where
  "make_object ms =
     JObj (own_property_order (foldl (\<lambda>obj (k, v). AList.update k v obj) [] ms))"

text \<open>
  Recursive descent over the JSON grammar. \<open>parse_value\<close> skips the white space before
  the value; \<open>parse_elements\<close> and \<open>parse_members\<close> read a non-empty element or member
  list up to and including the closing bracket. Each returns the text left over. The
  tests \<open>length r < length s\<close> only make the recursion well-founded: a value is never
  empty, so they always hold (\<open>parse_value_shorter\<close>, \<open>parse_chars_shorter\<close>).
\<close>

lemma skip_ws_length: "length (skip_ws s) \<le> length s"
  by (simp add: skip_ws_def length_dropWhile_le)

lemma skip_ws_Cons_length: "skip_ws s = c # r \<Longrightarrow> length r < length s"
  using skip_ws_length [of s] by simp

function parse_value :: "'n engine \<Rightarrow> jsstring \<Rightarrow> ('n json \<times> jsstring) option"
  and parse_elements :: "'n engine \<Rightarrow> jsstring \<Rightarrow> ('n json list \<times> jsstring) option"
  and parse_members ::
      "'n engine \<Rightarrow> jsstring \<Rightarrow> ((jsstring \<times> 'n json) list \<times> jsstring) option" where
  "parse_value E s =
     (case skip_ws s of
        [] \<Rightarrow> None
      | c # r \<Rightarrow>
          if c = LBRACE then
            (case skip_ws r of
               [] \<Rightarrow> None
             | d # r' \<Rightarrow>
                 if d = RBRACE then Some (JObj [], r')
                 else (case parse_members E r of
                         None \<Rightarrow> None
                       | Some (ms, r'') \<Rightarrow> Some (make_object ms, r'')))
          else if c = LBRACKET then
            (case skip_ws r of
               [] \<Rightarrow> None
             | d # r' \<Rightarrow>
                 if d = RBRACKET then Some (JArr [], r')
                 else (case parse_elements E r of
                         None \<Rightarrow> None
                       | Some (vs, r'') \<Rightarrow> Some (JArr vs, r'')))
          else if c = DQUOTE then
            (case parse_chars r of
               None \<Rightarrow> None
             | Some (t, r') \<Rightarrow> Some (JStr t, r'))
          else parse_literal E (c # r))"
| "parse_elements E s =
     (case parse_value E s of
        None \<Rightarrow> None
      | Some (v, r) \<Rightarrow>
          if length r < length s then
            (case skip_ws r of
               [] \<Rightarrow> None
             | c # r' \<Rightarrow>
                 if c = COMMA then
                   (case parse_elements E r' of
                      None \<Rightarrow> None
                    | Some (vs, r'') \<Rightarrow> Some (v # vs, r''))
                 else if c = RBRACKET then Some ([v], r')
                 else None)
          else None)"
| "parse_members E s =
     (case skip_ws s of
        [] \<Rightarrow> None
      | q # r \<Rightarrow>
          if q = DQUOTE then
            (case parse_chars r of
               None \<Rightarrow> None
             | Some (k, r1) \<Rightarrow>
                 if length r1 < length r then
                   (case skip_ws r1 of
                      [] \<Rightarrow> None
                    | c # r2 \<Rightarrow>
                        if c = COLON then
                          (case parse_value E r2 of
                             None \<Rightarrow> None
                           | Some (v, r3) \<Rightarrow>
                               if length r3 < length r2 then
                                 (case skip_ws r3 of
                                    [] \<Rightarrow> None
                                  | e # r4 \<Rightarrow>
                                      if e = COMMA then
                                        (case parse_members E r4 of
                                           None \<Rightarrow> None
                                         | Some (ms, r5) \<Rightarrow> Some ((k, v) # ms, r5))
                                      else if e = RBRACE then Some ([(k, v)], r4)
                                      else None)
                               else None)
                        else None)
                 else None)
          else None)"
  by pat_completeness auto

termination
  by (relation "measure (\<lambda>x. case x of
                     Inl (E, s) \<Rightarrow> 2 * length s
                   | Inr (Inl (E, s)) \<Rightarrow> 2 * length s + 1
                   | Inr (Inr (E, s)) \<Rightarrow> 2 * length s + 1)")
     (auto dest!: skip_ws_Cons_length)

text \<open>
  \<open>JSON.parse\<close>: one value, white space around it, nothing else; \<open>None\<close> is the
  SyntaxError.
\<close>

definition JSON_parse :: "'n engine \<Rightarrow> jsstring \<Rightarrow> 'n json option" where
  "JSON_parse E s =
     (case parse_value E s of
        None \<Rightarrow> None
      | Some (v, r) \<Rightarrow> if skip_ws r = [] then Some v else None)"

section \<open>Effects, errors and collaborators\<close>

text \<open>
  The calls the module makes to the outside (file system, container runtime, Compose
  reader, log) and to \<open>JSON.parse\<close>, in the order it makes them. A computation yields
  the events it caused and either the error it threw or its value.
\<close>

datatype event =
    IsFile jsstring
  | ReadFile jsstring
  | InspectDockerImage jsstring
  | GetDockerComposeFilePaths
  | ReadDockerComposeConfig "jsstring list" "jsstring option"
  | JSONParse jsstring
  | Write jsstring

datatype error =
    ContainerError jsstring
  | Error jsstring
  | Rejected jsstring

type_synonym 'a eff = "event list \<times> (error + 'a)"

definition ret :: "'a \<Rightarrow> 'a eff" where
  "ret x = ([], Inr x)"

definition throw :: "error \<Rightarrow> 'a eff" where
  "throw e = ([], Inl e)"

definition call :: "event \<Rightarrow> (error + 'a) \<Rightarrow> 'a eff" where
  "call ev r = ([ev], r)"

definition bind_eff :: "'a eff \<Rightarrow> ('a \<Rightarrow> 'b eff) \<Rightarrow> 'b eff" where
  "bind_eff m f =
     (case m of
        (es, Inl e) \<Rightarrow> (es, Inl e)
      | (es, Inr x) \<Rightarrow> (case f x of (es', r) \<Rightarrow> (es @ es', r)))"

text \<open>
  What a call of an asynchronous function hands back is a promise; only \<open>await\<close> gives
  the value. \<open>Plain\<close> is the result of a synchronous function, which \<open>await\<close> passes
  through. In a condition an object is true, so a promise is true whatever it resolves
  to.
\<close>

datatype 'a returned = Plain 'a | Promise 'a

fun await :: "'a returned \<Rightarrow> 'a" where
  "await (Plain x) = x"
| "await (Promise x) = x"

fun truthy :: "bool returned \<Rightarrow> bool" where
  "truthy (Plain b) = b"
| "truthy (Promise b) = True"

record ImageDetails =
  Config_User :: jsstring
  Config_Labels :: "(jsstring \<rightharpoonup> jsstring) option"

record 'svc ComposeConfig =
  services :: "(jsstring \<times> 'svc) list option"

text \<open>
  The collaborators: \<open>cliHost\<close> (\<open>isFile\<close>, \<open>readFile\<close>, \<open>path\<close>, \<open>cwd\<close>), the functions
  imported from the configuration, Compose and utility modules, and the JavaScript
  engine. \<open>dockerfilePath\<close> is
  \<open>uriToWSLFsPath (getDockerfilePath (cliHost, config), cliHost)\<close>, \<open>cwdEnvFile\<close> is
  \<open>cliHost.path.join (cliHost.cwd, '.env')\<close>, \<open>getBuildInfoForService\<close> gives
  \<open>serviceInfo.build\<close> as the pair of \<open>context\<close> and \<open>dockerfilePath\<close>, \<open>service_image\<close>
  is \<open>composeService.image\<close>.
\<close>

record ('n, 'svc) params =
  engine :: "'n engine"
  isDockerFileConfig :: "'n jobject \<Rightarrow> bool"
  dockerfilePath :: "'n jobject \<Rightarrow> jsstring"
  isFile :: "jsstring \<Rightarrow> bool returned"
  readFile :: "jsstring \<Rightarrow> error + jsstring"
  cwdEnvFile :: jsstring
  path_isAbsolute :: "jsstring \<Rightarrow> bool"
  path_resolve :: "jsstring \<Rightarrow> jsstring \<Rightarrow> jsstring"
  getDockerComposeFilePaths :: "'n jobject \<Rightarrow> error + jsstring list"
  readDockerComposeConfig :: "jsstring list \<Rightarrow> jsstring option \<Rightarrow> error + 'svc ComposeConfig"
  getBuildInfoForService :: "'svc \<Rightarrow> jsstring list \<Rightarrow> (jsstring \<times> jsstring) option"
  service_image :: "'svc \<Rightarrow> jsstring"
  inspectDockerImage :: "jsstring \<Rightarrow> error + ImageDetails"
  findUserStatement :: "jsstring \<Rightarrow> jsstring option"
  findBaseImage :: "jsstring \<Rightarrow> jsstring option"

section \<open>Metadata schema and projection\<close>

definition pickConfigProperties :: "jsstring list" where
  "pickConfigProperties =
     [str ''onCreateCommand'', str ''updateContentCommand'', str ''postCreateCommand'',
      str ''postStartCommand'', str ''postAttachCommand'', str ''waitFor'',
      str ''customizations'', str ''remoteUser'', str ''userEnvProbe'', str ''remoteEnv'',
      str ''overrideCommand'', str ''portsAttributes'', str ''otherPortsAttributes'',
      str ''forwardPorts'', str ''shutdownAction'', str ''updateRemoteUserUID'',
      str ''hostRequirements'']"

definition pickSingleContainerConfigProperties :: "jsstring list" where
  "pickSingleContainerConfigProperties =
     [str ''mounts'', str ''containerUser'', str ''containerEnv''] @ pickConfigProperties"

definition pickFeatureProperties :: "jsstring list" where
  "pickFeatureProperties =
     [str ''id'', str ''init'', str ''privileged'', str ''capAdd'', str ''securityOpt'',
      str ''entrypoint'', str ''mounts'', str ''customizations'']"

text \<open>
  \<open>key in obj\<close> is \<open>map_of obj key \<noteq> None\<close> and \<open>obj[key]\<close> the value found;
  \<open>res[key] = v\<close> is \<open>AList.update\<close>, which overwrites in place or appends.
\<close>

definition pick :: "'n jobject \<Rightarrow> jsstring list \<Rightarrow> 'n jobject" where
  "pick obj keys =
     foldl (\<lambda>res key. case map_of obj key of
                         None \<Rightarrow> res
                       | Some v \<Rightarrow> AList.update key v res) [] keys"

record 'n FeatureSet =
  features :: "'n jobject list"

record 'n FeaturesConfig =
  featureSets :: "'n FeatureSet list"

datatype 'n features_argument = Config "'n FeaturesConfig" | Array "'n jobject list"

text \<open>The local \<open>features\<close> of \<open>getDevcontainerMetadata\<close>.\<close>

definition features_list :: "'n features_argument \<Rightarrow> 'n jobject list" where
  "features_list featuresConfig =
     (case featuresConfig of
        Array a \<Rightarrow> a
      | Config c \<Rightarrow> concat (map features (featureSets c)))"

definition getDevcontainerMetadata ::
  "'n jobject \<Rightarrow> 'n features_argument \<Rightarrow> 'n json list" where
  "getDevcontainerMetadata devContainerConfig featuresConfig =
     map (\<lambda>feature. JObj (pick feature pickFeatureProperties)) (features_list featuresConfig) @
     [if map_of devContainerConfig (str ''dockerComposeFile'') \<noteq> None
      then JObj (pick devContainerConfig pickConfigProperties)
      else JObj (pick devContainerConfig pickSingleContainerConfigProperties)]"

section \<open>Label codec\<close>

definition imageMetadataLabel :: jsstring where
  "imageMetadataLabel = str ''devcontainer.metadata''"

text \<open>
  \<open>internalGetImageMetadata\<close>. An absent label and the empty string are both false in
  \<open>if (str)\<close>. \<open>Array.isArray\<close> holds of \<open>JArr\<close>; \<open>obj && typeof obj === 'object'\<close> holds
  of \<open>JObj\<close> (an array has returned before, and \<open>null\<close> is false).
\<close>

definition internalGetImageMetadata ::
  "'n engine \<Rightarrow> ImageDetails \<Rightarrow> bool \<Rightarrow> 'n json list eff" where
  "internalGetImageMetadata E imageDetails experimentalImageMetadata =
     (if \<not> experimentalImageMetadata then ret []
      else
        (case (case Config_Labels imageDetails of
                 None \<Rightarrow> None
               | Some labels \<Rightarrow> labels imageMetadataLabel) of
           None \<Rightarrow> ret []
         | Some s \<Rightarrow>
             if s = [] then ret []
             else
               bind_eff (call (JSONParse s) (Inr (JSON_parse E s))) (\<lambda>parsed.
                 case parsed of
                   None \<Rightarrow>
                     bind_eff (call (Write (str ''Error parsing image metadata: '' @
                                        SyntaxError_message E s))
                                 (Inr ()))
                       (\<lambda>_. ret [])
                 | Some obj \<Rightarrow>
                     (case obj of
                        JArr entries \<Rightarrow> ret entries
                      | JObj _ \<Rightarrow> ret [obj]
                      | _ \<Rightarrow>
                          bind_eff (call (Write (str ''Invalid image metadata: '' @ s)) (Inr ()))
                            (\<lambda>_. ret [])))))"

definition getImageMetadata ::
  "'n engine \<Rightarrow> ImageDetails \<Rightarrow> bool \<Rightarrow> 'n json list eff" where
  "getImageMetadata E imageDetails experimentalImageMetadata =
     internalGetImageMetadata E imageDetails experimentalImageMetadata"

definition getImageMetadataFromContainer ::
  "'n engine \<Rightarrow> ImageDetails \<Rightarrow> 'n jobject \<Rightarrow> 'n features_argument \<Rightarrow> bool
     \<Rightarrow> 'n json list eff" where
  "getImageMetadataFromContainer E containerDetails devContainerConfig featuresConfig
       experimentalImageMetadata =
     (if \<not> experimentalImageMetadata
      then ret (getDevcontainerMetadata devContainerConfig featuresConfig)
      else internalGetImageMetadata E containerDetails experimentalImageMetadata)"

text \<open>
  \<open>.replace(/(?=["\\$])/g, '\\')\<close>: the pattern is a lookahead, so it matches the empty
  string before each quote, backslash and dollar sign, and the replacement is put
  there.
\<close>

fun replace_lookahead :: "jsstring \<Rightarrow> jsstring" where
  "replace_lookahead [] = []"
| "replace_lookahead (c # cs) =
     (if c = DQUOTE \<or> c = BACKSLASH \<or> c = DOLLAR
      then BACKSLASH # c # replace_lookahead cs
      else c # replace_lookahead cs)"

definition toLabelString :: "'n engine \<Rightarrow> 'n json \<Rightarrow> jsstring" where
  "toLabelString E obj = replace_lookahead (JSON_stringify E obj)"

text \<open>
  The escaped text with the inserted backslashes deleted: a backslash is dropped and the
  character after it kept.
\<close>

fun remove_inserted :: "jsstring \<Rightarrow> jsstring" where
  "remove_inserted [] = []"
| "remove_inserted [c] = [c]"
| "remove_inserted (c # d # cs) =
     (if c = BACKSLASH then d # remove_inserted cs else c # remove_inserted (d # cs))"

text \<open>The local \<open>metadata\<close> and \<open>imageMetadataLabelValue\<close> of \<open>getDevcontainerMetadataLabel\<close>.\<close>

definition mergedMetadata ::
  "'n json list \<Rightarrow> 'n jobject \<Rightarrow> 'n features_argument \<Rightarrow> 'n json list" where
  "mergedMetadata baseImageMetadata devContainerConfig featuresConfig =
     baseImageMetadata @ getDevcontainerMetadata devContainerConfig featuresConfig"

definition imageMetadataLabelValue :: "'n engine \<Rightarrow> 'n json list \<Rightarrow> jsstring" where
  "imageMetadataLabelValue E metadata =
     (if length metadata \<noteq> 1
      then [LBRACKET] @
           join [COMMA] (map (\<lambda>feature. [SPACE, BACKSLASH, NEWLINE] @ toLabelString E feature)
                           metadata) @
           [SPACE, BACKSLASH, NEWLINE, RBRACKET]
      else toLabelString E (hd metadata))"

definition getDevcontainerMetadataLabel ::
  "'n engine \<Rightarrow> 'n json list \<Rightarrow> 'n jobject \<Rightarrow> 'n features_argument \<Rightarrow> bool \<Rightarrow> jsstring" where
  "getDevcontainerMetadataLabel E baseImageMetadata devContainerConfig featuresConfig
       experimentalImageMetadata =
     (if \<not> experimentalImageMetadata then []
      else
        let metadata = mergedMetadata baseImageMetadata devContainerConfig featuresConfig
        in if metadata = [] then []
           else str ''LABEL '' @ imageMetadataLabel @ str ''='' @ [DQUOTE] @
                imageMetadataLabelValue E metadata @ [DQUOTE])"

section \<open>Build strategy resolver and user resolution\<close>

record 'n ImageBuildInfo =
  user :: jsstring
  metadata :: "'n json list"

record 'n ImageBuildInfoWithDetails = "'n ImageBuildInfo" +
  imageDetails :: ImageDetails

text \<open>\<open>a || b\<close> on strings: the empty string and \<open>undefined\<close> are false.\<close>

definition or_else :: "jsstring option \<Rightarrow> jsstring option \<Rightarrow> jsstring option" where
  "or_else a b = (case a of None \<Rightarrow> b | Some s \<Rightarrow> if s = [] then b else Some s)"

definition or_default :: "jsstring option \<Rightarrow> jsstring \<Rightarrow> jsstring" where
  "or_default a d = (case a of None \<Rightarrow> d | Some s \<Rightarrow> if s = [] then d else s)"

definition getImageBuildInfoFromImage ::
  "('n, 'svc) params \<Rightarrow> jsstring \<Rightarrow> bool \<Rightarrow> 'n ImageBuildInfoWithDetails eff" where
  "getImageBuildInfoFromImage P imageName experimentalImageMetadata =
     bind_eff (call (InspectDockerImage imageName) (inspectDockerImage P imageName)) (\<lambda>details.
       let u = or_default (Some (Config_User details)) (str ''root'')
       in bind_eff (getImageMetadata (engine P) details experimentalImageMetadata)
            (\<lambda>m. ret \<lparr>user = u, metadata = m, imageDetails = details\<rparr>))"

text \<open>
  \<open>baseImage && await inspectDockerImage(baseImage) || undefined\<close> inspects when a base
  image was found and its name is not empty; the details object it resolves to is true.
\<close>

definition internalGetImageBuildInfoFromDockerfile ::
  "('n, 'svc) params \<Rightarrow> (jsstring \<Rightarrow> error + ImageDetails) \<Rightarrow> jsstring \<Rightarrow> bool
     \<Rightarrow> 'n ImageBuildInfo eff" where
  "internalGetImageBuildInfoFromDockerfile P inspect dockerfile experimentalImageMetadata =
     (let dockerfileUser = findUserStatement P dockerfile;
          baseImage = findBaseImage P dockerfile
      in bind_eff
           (case baseImage of
              None \<Rightarrow> ret None
            | Some b \<Rightarrow>
                if b = [] then ret None
                else bind_eff (call (InspectDockerImage b) (inspect b)) (\<lambda>d. ret (Some d)))
           (\<lambda>details.
              let u = or_default (or_else dockerfileUser (map_option Config_User details))
                        (str ''root'')
              in bind_eff
                   (case details of
                      None \<Rightarrow> ret []
                    | Some d \<Rightarrow> getImageMetadata (engine P) d experimentalImageMetadata)
                   (\<lambda>m. ret \<lparr>user = u, metadata = m\<rparr>)))"

definition getImageBuildInfoFromDockerfile ::
  "('n, 'svc) params \<Rightarrow> jsstring \<Rightarrow> bool \<Rightarrow> 'n ImageBuildInfo eff" where
  "getImageBuildInfoFromDockerfile P dockerfile experimentalImageMetadata =
     internalGetImageBuildInfoFromDockerfile P (\<lambda>imageName. inspectDockerImage P imageName)
       dockerfile experimentalImageMetadata"

text \<open>
  \<open>config.image\<close>, which the configuration types declare a string. On an object
  outside its type the read gives \<open>undefined\<close>, which the runtime's command line prints
  as that word.
\<close>

definition string_property :: "'n jobject \<Rightarrow> jsstring \<Rightarrow> jsstring" where
  "string_property obj key =
     (case map_of obj key of Some (JStr s) \<Rightarrow> s | _ \<Rightarrow> str ''undefined'')"

text \<open>
  A value inside a template literal (ToString): a string is itself, an array the
  texts of its elements joined by commas with \<open>null\<close> left empty, an object
  \<open>[object Object]\<close>; \<open>None\<close> is \<open>undefined\<close>.
\<close>

fun template_value :: "'n engine \<Rightarrow> 'n json \<Rightarrow> jsstring"
  and template_elements :: "'n engine \<Rightarrow> 'n json list \<Rightarrow> jsstring list" where
  "template_value E JNull = str ''null''"
| "template_value E (JBool b) = (if b then str ''true'' else str ''false'')"
| "template_value E (JNum x) = Number_toString E x"
| "template_value E (JStr s) = s"
| "template_value E (JArr vs) = join [COMMA] (template_elements E vs)"
| "template_value E (JObj ms) = str ''[object Object]''"
| "template_elements E [] = []"
| "template_elements E (v # vs) =
     (case v of JNull \<Rightarrow> [] | _ \<Rightarrow> template_value E v) # template_elements E vs"

definition template_text :: "'n engine \<Rightarrow> 'n json option \<Rightarrow> jsstring" where
  "template_text E v = (case v of None \<Rightarrow> str ''undefined'' | Some x \<Rightarrow> template_value E x)"

text \<open>
  \<open>Object.keys(composeConfig.services || {}).indexOf(config.service)\<close> finds the service
  only when \<open>config.service\<close> is a string that is one of the keys;
  \<open>composeConfig.services[config.service]\<close> is then its value.
\<close>

definition find_service ::
  "'svc ComposeConfig \<Rightarrow> 'n json option \<Rightarrow> 'svc option" where
  "find_service composeConfig service =
     (case service of
        Some (JStr name) \<Rightarrow> map_of (case services composeConfig of None \<Rightarrow> [] | Some ss \<Rightarrow> ss) name
      | _ \<Rightarrow> None)"

text \<open>
  \<open>getImageBuildInfo\<close>. In the Dockerfile branch \<open>cliHost.isFile\<close> is called and its
  result negated as it is returned, without \<open>await\<close>; the Compose branch awaits it.
\<close>

definition getImageBuildInfo ::
  "('n, 'svc) params \<Rightarrow> 'n jobject \<Rightarrow> bool \<Rightarrow> 'n ImageBuildInfo eff" where
  "getImageBuildInfo P config experimentalImageMetadata =
     (if isDockerFileConfig P config then
        let path = dockerfilePath P config
        in bind_eff (call (IsFile path) (Inr (isFile P path))) (\<lambda>found.
             if \<not> truthy found
             then throw (ContainerError (str ''Dockerfile ('' @ path @ str '') not found.''))
             else bind_eff (call (ReadFile path) (readFile P path)) (\<lambda>dockerfile.
                    getImageBuildInfoFromDockerfile P dockerfile experimentalImageMetadata))
      else if map_of config (str ''dockerComposeFile'') \<noteq> None then
        bind_eff
          (if map_of config (str ''dockerComposeFile'') = Some (JArr [])
           then bind_eff (call (IsFile (cwdEnvFile P)) (Inr (isFile P (cwdEnvFile P))))
                  (\<lambda>found. ret (if await found then Some (cwdEnvFile P) else None))
           else ret None)
          (\<lambda>envFile.
             bind_eff (call GetDockerComposeFilePaths (getDockerComposeFilePaths P config))
               (\<lambda>composeFiles.
                  bind_eff (call (ReadDockerComposeConfig composeFiles envFile)
                              (readDockerComposeConfig P composeFiles envFile))
                    (\<lambda>composeConfig.
                       case find_service composeConfig (map_of config (str ''service'')) of
                         None \<Rightarrow>
                           throw (Error (str ''Service '' @ [39] @
                                         template_text (engine P)
                                           (map_of config (str ''service'')) @ [39] @
                                         str '' configured in devcontainer.json not found in Docker Compose configuration.''))
                       | Some composeService \<Rightarrow>
                           (case getBuildInfoForService P composeService composeFiles of
                              Some (context, dfPath) \<Rightarrow>
                                let resolvedDockerfilePath =
                                      (if path_isAbsolute P dfPath then dfPath
                                       else path_resolve P context dfPath)
                                in bind_eff (call (ReadFile resolvedDockerfilePath)
                                               (readFile P resolvedDockerfilePath))
                                     (\<lambda>dockerfile.
                                        getImageBuildInfoFromDockerfile P dockerfile
                                          experimentalImageMetadata)
                            | None \<Rightarrow>
                                bind_eff (getImageBuildInfoFromImage P
                                            (service_image P composeService)
                                            experimentalImageMetadata)
                                  (\<lambda>info. ret (ImageBuildInfo.truncate info))))))
      else
        bind_eff (getImageBuildInfoFromImage P (string_property config (str ''image''))
                    experimentalImageMetadata)
          (\<lambda>info. ret (ImageBuildInfo.truncate info)))"

section \<open>Collaborators and inputs for evaluation\<close>

text \<open>
  An engine for evaluation: a number is the literal that prints it, and reading such a
  literal is exact.
\<close>

definition example_engine :: "jsstring engine" where
  "example_engine =
     \<lparr>Number_isFinite = (\<lambda>x. True),
      Number_toString = (\<lambda>x. x),
      StringToNumber = (\<lambda>text. text),
      SyntaxError_message = (\<lambda>text. str ''Unexpected token'')\<rparr>"

text \<open>
  A file system with one Dockerfile path, whose file exists or not as \<open>dockerfileFound\<close>
  says, a runtime whose images all have the user \<open>imageUser\<close> and no label, and a
  Dockerfile parser that finds the user \<open>dockerfileUser\<close> and the base image
  \<open>baseImage\<close>.
\<close>

definition example_params ::
  "jsstring option \<Rightarrow> jsstring option \<Rightarrow> jsstring \<Rightarrow> bool returned
     \<Rightarrow> (jsstring, unit) params" where
  "example_params dockerfileUser baseImage imageUser dockerfileFound =
     \<lparr>engine = example_engine,
      isDockerFileConfig = (\<lambda>config. map_of config (str ''dockerFile'') \<noteq> None),
      dockerfilePath = (\<lambda>config. str ''/w/Dockerfile''),
      isFile = (\<lambda>path. dockerfileFound),
      readFile = (\<lambda>path. if await dockerfileFound then Inr (str ''FROM base'')
                           else Inl (Rejected (str ''ENOENT''))),
      cwdEnvFile = str ''/w/.env'',
      path_isAbsolute = (\<lambda>path. take 1 path = str ''/''),
      path_resolve = (\<lambda>context path. context @ str ''/'' @ path),
      getDockerComposeFilePaths = (\<lambda>config. Inr []),
      readDockerComposeConfig = (\<lambda>files envFile. Inr \<lparr>services = None\<rparr>),
      getBuildInfoForService = (\<lambda>service files. None),
      service_image = (\<lambda>service. str ''base''),
      inspectDockerImage = (\<lambda>imageName. Inr \<lparr>Config_User = imageUser, Config_Labels = None\<rparr>),
      findUserStatement = (\<lambda>dockerfile. dockerfileUser),
      findBaseImage = (\<lambda>dockerfile. baseImage)\<rparr>"

text \<open>An inspected image or container whose metadata label is \<open>s\<close>.\<close>

definition labelled :: "jsstring \<Rightarrow> ImageDetails" where
  "labelled s = \<lparr>Config_User = [], Config_Labels = Some [imageMetadataLabel \<mapsto> s]\<rparr>"

text \<open>
  The user of the base image of a Dockerfile, when a base image is named and its
  inspection succeeds.
\<close>

definition inspected_user ::
  "('n, 'svc) params \<Rightarrow> (jsstring \<Rightarrow> error + ImageDetails) \<Rightarrow> jsstring \<Rightarrow> jsstring option"
  where
  "inspected_user P inspect dockerfile =
     (case findBaseImage P dockerfile of
        None \<Rightarrow> None
      | Some b \<Rightarrow> if b = [] then None
                  else (case inspect b of Inl e \<Rightarrow> None | Inr d \<Rightarrow> Some (Config_User d)))"

section \<open>Well-formed values and the texts around them\<close>

text \<open>What may follow a number: not a character that would continue it.\<close>

definition ends_value :: "jsstring \<Rightarrow> bool" where
  "ends_value rest =
     (case rest of [] \<Rightarrow> True | c # _ \<Rightarrow> \<not> is_digit c \<and> c \<noteq> 46 \<and> c \<noteq> 101 \<and> c \<noteq> 69)"

text \<open>White space only, and a text that begins like a value.\<close>

definition all_ws :: "jsstring \<Rightarrow> bool" where
  "all_ws w = (\<forall>c \<in> set w. is_ws c)"

definition starts_value :: "jsstring \<Rightarrow> bool" where
  "starts_value s =
     (case s of [] \<Rightarrow> False | c # _ \<Rightarrow> \<not> is_ws c \<and> c \<noteq> RBRACKET \<and> c \<noteq> RBRACE)"

text \<open>A number literal, the whole of it.\<close>

definition is_number_literal :: "jsstring \<Rightarrow> bool" where
  "is_number_literal t = (scan_number t = Some (t, []))"

text \<open>
  The values that an object read from JSON text holds: code units below 65536, finite
  numbers that the engine prints as a number literal and reads back from it (as
  ECMAScript guarantees of every finite number but the negative zero), and objects that
  name each key once, in the order their keys are listed.
\<close>

definition wf_string :: "jsstring \<Rightarrow> bool" where
  "wf_string s = (\<forall>c \<in> set s. c < 65536)"

definition wf_number :: "'n engine \<Rightarrow> 'n \<Rightarrow> bool" where
  "wf_number E x =
     (Number_isFinite E x \<and> is_number_literal (Number_toString E x) \<and>
      StringToNumber E (Number_toString E x) = x)"

fun wf_json :: "'n engine \<Rightarrow> 'n json \<Rightarrow> bool"
  and wf_elements :: "'n engine \<Rightarrow> 'n json list \<Rightarrow> bool"
  and wf_members :: "'n engine \<Rightarrow> (jsstring \<times> 'n json) list \<Rightarrow> bool" where
  "wf_json E JNull = True"
| "wf_json E (JBool b) = True"
| "wf_json E (JNum x) = wf_number E x"
| "wf_json E (JStr s) = wf_string s"
| "wf_json E (JArr vs) = wf_elements E vs"
| "wf_json E (JObj ms) =
     (distinct (map fst ms) \<and> own_property_order ms = ms \<and> wf_members E ms)"
| "wf_elements E [] = True"
| "wf_elements E (v # vs) = (wf_json E v \<and> wf_elements E vs)"
| "wf_members E [] = True"
| "wf_members E ((k, v) # ms) = (wf_string k \<and> wf_json E v \<and> wf_members E ms)"

text \<open>
  A value that \<open>JSON.parse\<close> reads back from its serialization, whatever text that
  may follow a value comes after it.
\<close>

definition roundtrips :: "'n engine \<Rightarrow> 'n json \<Rightarrow> bool" where
  "roundtrips E v =
     (starts_value (JSON_stringify E v) \<and>
      (\<forall>rest. ends_value rest \<longrightarrow>
              parse_value E (JSON_stringify E v @ rest) = Some (v, rest)))"

text \<open>A well-formed metadata entry: an object of well-formed values.\<close>

definition wf_entry :: "'n engine \<Rightarrow> 'n json \<Rightarrow> bool" where
  "wf_entry E e = (case e of JObj ms \<Rightarrow> wf_json E e | _ \<Rightarrow> False)"

text \<open>The fields of an entry, as a map from its keys.\<close>

definition entry_fields :: "'n json \<Rightarrow> (jsstring \<rightharpoonup> 'n json)" where
  "entry_fields e = (case e of JObj ps \<Rightarrow> map_of ps | _ \<Rightarrow> Map.empty)"

text \<open>
  The escaped text as a Dockerfile instruction is read: a backslash before a line break
  continues the line and both are dropped; any other backslash is dropped and the
  character after it kept.
\<close>

fun read_continued :: "jsstring \<Rightarrow> jsstring" where
  "read_continued [] = []"
| "read_continued [c] = [c]"
| "read_continued (c # d # cs) =
     (if c = BACKSLASH then (if d = NEWLINE then read_continued cs else d # read_continued cs)
      else c # read_continued (d # cs))"

lemma hexval_hexdigit: "d < 16 \<Longrightarrow> hexval (hexdigit d) = Some d"
  by (auto simp: hexval_def hexdigit_def)

lemma hex_digits_sum:
  fixes c :: nat
  assumes "c < 65536"
  shows "4096 * (c div 4096 mod 16) + 256 * (c div 256 mod 16) + 16 * (c div 16 mod 16) + c mod 16 = c"
proof -
  have a: "c = 16 * (c div 16) + c mod 16" by simp
  have b: "c div 16 = 16 * (c div 256) + c div 16 mod 16"
    using div_mult_mod_eq [of "c div 16" 16] by (simp add: div_mult2_eq [symmetric])
  have d: "c div 256 = 16 * (c div 4096) + c div 256 mod 16"
    using div_mult_mod_eq [of "c div 256" 16] by (simp add: div_mult2_eq [symmetric])
  have e: "c div 4096 mod 16 = c div 4096"
    using assms by simp
  show ?thesis using a b d e by linarith
qed

lemma sixteen: "(0::nat) < 16"
  by simp

lemma parse_uescape:
  assumes "c < 65536"
  shows "parse_chars (uescape c @ t) = cons_char c (parse_chars t)"
proof -
  have "hex4 (hexdigit (c div 4096 mod 16)) (hexdigit (c div 256 mod 16))
          (hexdigit (c div 16 mod 16)) (hexdigit (c mod 16)) = Some c"
    by (simp only: hex4_def hexval_hexdigit [OF mod_less_divisor [OF sixteen]]
          prod.case option.case hex_digits_sum [OF assms])
  then show ?thesis by (simp add: uescape_def)
qed

lemma parse_chars_quote_chars:
  "parse_chars (quote_chars s @ DQUOTE # rest) = Some (s, rest)"
proof (induction "length s" arbitrary: s rule: less_induct)
  case less
  show ?case
  proof (cases s)
    case Nil
    then show ?thesis by simp
  next
    case (Cons c cs)
    have ih: "parse_chars (quote_chars cs @ DQUOTE # rest) = Some (cs, rest)"
      using less [of cs] Cons by simp
    consider (short) "c = DQUOTE \<or> c = BACKSLASH \<or> c = 8 \<or> c = 12 \<or> c = 10 \<or> c = 13 \<or> c = 9"
      | (control) "\<not> (c = DQUOTE \<or> c = BACKSLASH \<or> c = 8 \<or> c = 12 \<or> c = 10 \<or> c = 13 \<or> c = 9)" "c < 32"
      | (pair) d ds where "\<not> c < 32" "c \<noteq> DQUOTE" "c \<noteq> BACKSLASH" "is_high_surrogate c"
          "cs = d # ds" "is_low_surrogate d"
      | (lone_high) "\<not> c < 32" "c \<noteq> DQUOTE" "c \<noteq> BACKSLASH" "is_high_surrogate c"
          "cs = [] \<or> (\<exists>d ds. cs = d # ds \<and> \<not> is_low_surrogate d)"
      | (lone_low) "\<not> c < 32" "c \<noteq> DQUOTE" "c \<noteq> BACKSLASH" "\<not> is_high_surrogate c"
          "is_low_surrogate c"
      | (raw) "\<not> c < 32" "c \<noteq> DQUOTE" "c \<noteq> BACKSLASH" "\<not> is_high_surrogate c"
          "\<not> is_low_surrogate c"
      by (cases cs) blast+
    then show ?thesis
    proof cases
      case short
      then show ?thesis
        unfolding Cons using ih
        by (elim disjE) (simp_all add: unescape_char_def cons_char_def)
    next
      case control
      then have q: "quote_chars (c # cs) = uescape c @ quote_chars cs"
        by simp
      have "c < 65536" using control by simp
      then show ?thesis
        unfolding Cons q using ih by (simp only: append_assoc parse_uescape cons_char_def) simp
    next
      case pair
      have q: "quote_chars (c # cs) = c # d # quote_chars ds"
        using pair by (simp add: is_high_surrogate_def)
      have d: "d \<noteq> DQUOTE" "d \<noteq> BACKSLASH" "\<not> d < 32"
        using pair by (simp_all add: is_low_surrogate_def)
      have c: "\<not> c < 32" using pair by simp
      have ihd: "parse_chars (quote_chars ds @ DQUOTE # rest) = Some (ds, rest)"
        using less [of ds] Cons pair by simp
      show ?thesis
        unfolding Cons q using ihd pair c d
        by (simp add: cons_char_def)
    next
      case lone_high
      have q: "quote_chars (c # cs) = uescape c @ quote_chars cs"
        using lone_high by (auto simp: is_high_surrogate_def)
      have "c < 65536" using lone_high by (simp add: is_high_surrogate_def)
      then show ?thesis
        unfolding Cons q using ih by (simp only: append_assoc parse_uescape cons_char_def) simp
    next
      case lone_low
      have q: "quote_chars (c # cs) = uescape c @ quote_chars cs"
        using lone_low by (auto simp: is_low_surrogate_def)
      have "c < 65536" using lone_low by (simp add: is_low_surrogate_def)
      then show ?thesis
        unfolding Cons q using ih by (simp only: append_assoc parse_uescape cons_char_def) simp
    next
      case raw
      have q: "quote_chars (c # cs) = c # quote_chars cs"
        using raw by (auto simp: is_low_surrogate_def is_high_surrogate_def)
      have c: "\<not> c < 32" using raw by simp
      show ?thesis
        unfolding Cons q using ih raw c by (simp add: cons_char_def)
    qed
  qed
qed

lemma digits_append:
  "ends_value rest \<Longrightarrow>
   takeWhile is_digit (xs @ rest) = takeWhile is_digit xs \<and>
   dropWhile is_digit (xs @ rest) = dropWhile is_digit xs @ rest"
proof (induction xs)
  case Nil
  then show ?case by (cases rest) (auto simp: ends_value_def)
next
  case (Cons x xs)
  then show ?case by simp
qed

lemma parse_fraction_append:
  assumes "parse_fraction s = Some (fr, s2)" and "ends_value rest"
  shows "parse_fraction (s @ rest) = Some (fr, s2 @ rest)"
proof (cases s)
  case Nil
  then show ?thesis using assms by (cases rest) (auto simp: parse_fraction_def ends_value_def)
next
  case (Cons c t)
  then show ?thesis
    using assms digits_append [OF assms(2), of t]
    by (auto simp: parse_fraction_def split: if_splits)
qed

lemma parse_exponent_append:
  assumes "parse_exponent s = Some (ex, s3)" and "ends_value rest"
  shows "parse_exponent (s @ rest) = Some (ex, s3 @ rest)"
proof (cases s)
  case Nil
  then show ?thesis using assms by (cases rest) (auto simp: parse_exponent_def ends_value_def)
next
  case (Cons c t)
  show ?thesis
  proof (cases "c = 101 \<or> c = 69")
    case False
    then show ?thesis using assms Cons by (auto simp: parse_exponent_def)
  next
    case True
    show ?thesis
    proof (cases t)
      case Nil
      then show ?thesis using assms Cons True by (auto simp: parse_exponent_def)
    next
      case inner: (Cons d u)
      then show ?thesis
        using assms Cons True digits_append [OF assms(2), of u] digits_append [OF assms(2), of t]
        by (auto simp: parse_exponent_def Let_def split: if_splits)
    qed
  qed
qed

lemma scan_number_append:
  assumes "scan_number s = Some (t, r)" and "ends_value rest"
  shows "scan_number (s @ rest) = Some (t, r @ rest)"
proof -
  define s1 where "s1 = (case s of [] \<Rightarrow> s | c # u \<Rightarrow> if c = MINUS then u else s)"
  define sg where "sg = (case s of [] \<Rightarrow> [] | c # u \<Rightarrow> if c = MINUS then [MINUS] else [])"
  have split: "(case s of [] \<Rightarrow> ([], s)
                | c # u \<Rightarrow> if c = MINUS then ([MINUS], u) else ([], s)) = (sg, s1)"
    by (auto simp: s1_def sg_def split: list.splits)
  have body: "(if takeWhile is_digit s1 = [] \<or>
                  (hd (takeWhile is_digit s1) = 48 \<and> 1 < length (takeWhile is_digit s1))
               then None
               else (case parse_fraction (dropWhile is_digit s1) of
                       None \<Rightarrow> None
                     | Some (fr, s2) \<Rightarrow>
                         (case parse_exponent s2 of
                            None \<Rightarrow> None
                          | Some (ex, s3) \<Rightarrow>
                              Some (sg @ takeWhile is_digit s1 @ fr @ ex, s3)))) = Some (t, r)"
    using assms(1) unfolding scan_number_def split by (simp add: Let_def)
  then have ne: "takeWhile is_digit s1 \<noteq> []"
    and lz: "\<not> (hd (takeWhile is_digit s1) = 48 \<and> 1 < length (takeWhile is_digit s1))"
    by (auto split: if_splits)
  from body ne lz obtain fr s2 where f: "parse_fraction (dropWhile is_digit s1) = Some (fr, s2)"
    by (cases "parse_fraction (dropWhile is_digit s1)") auto
  from body ne lz f obtain ex where e: "parse_exponent s2 = Some (ex, r)"
    and t: "t = sg @ takeWhile is_digit s1 @ fr @ ex"
    by (cases "parse_exponent s2") auto
  have "s1 \<noteq> []" using ne by auto
  then have "s \<noteq> []" by (auto simp: s1_def)
  then have split': "(case s @ rest of [] \<Rightarrow> ([], s @ rest)
                | c # u \<Rightarrow> if c = MINUS then ([MINUS], u) else ([], s @ rest)) = (sg, s1 @ rest)"
    by (cases s) (auto simp: s1_def sg_def)
  note d = digits_append [OF assms(2), of s1]
  show ?thesis
    unfolding scan_number_def split'
    using ne lz parse_fraction_append [OF f assms(2)] parse_exponent_append [OF e assms(2)] t
    by (simp add: Let_def d)
qed

lemma scan_number_start:
  assumes "scan_number s = Some (t, r)"
  shows "\<exists>c u. s = c # u \<and> (is_digit c \<or> c = MINUS)"
proof (cases s)
  case Nil
  then show ?thesis using assms by (simp add: scan_number_def)
next
  case (Cons c u)
  show ?thesis
  proof (cases "c = MINUS")
    case True
    then show ?thesis using Cons by simp
  next
    case False
    then have "takeWhile is_digit (c # u) \<noteq> []"
      using assms Cons by (auto simp: scan_number_def Let_def split: if_splits)
    then have "is_digit c" by (auto split: if_splits)
    then show ?thesis using Cons by simp
  qed
qed

lemma parse_number_literal:
  assumes "is_number_literal t" and "ends_value rest"
  shows "parse_number E (t @ rest) = Some (JNum (StringToNumber E t), rest)"
  using scan_number_append [OF _ assms(2), of t t "[]"] assms(1)
  by (simp add: parse_number_def is_number_literal_def)

declare parse_value.simps [simp del] parse_elements.simps [simp del] parse_members.simps [simp del]

lemma skip_ws_all_ws: "all_ws w \<Longrightarrow> skip_ws (w @ s) = skip_ws s"
  by (simp add: all_ws_def skip_ws_def dropWhile_append2)

lemma skip_ws_not_ws: "\<not> is_ws c \<Longrightarrow> skip_ws (c # s) = c # s"
  by (simp add: skip_ws_def)

lemma parse_value_all_ws: "all_ws w \<Longrightarrow> parse_value E (w @ s) = parse_value E s"
  by (simp add: parse_value.simps [of E "w @ s"] parse_value.simps [of E s] skip_ws_all_ws)

lemma ends_value_all_ws:
  "all_ws w \<Longrightarrow> c = RBRACKET \<or> c = RBRACE \<or> c = COMMA \<Longrightarrow> ends_value (w @ c # rest)"
  by (cases w) (auto simp: ends_value_def all_ws_def is_ws_def is_digit_def)

lemma ends_value_delimiter:
  "c = RBRACKET \<or> c = RBRACE \<or> c = COMMA \<Longrightarrow> ends_value (c # rest)"
  by (auto simp: ends_value_def is_digit_def)

lemma parse_value_quote:
  "parse_value E (DQUOTE # r) =
     (case parse_chars r of None \<Rightarrow> None | Some (t, r') \<Rightarrow> Some (JStr t, r'))"
  by (simp add: parse_value.simps [of E "DQUOTE # r"] skip_ws_not_ws is_ws_def)

lemma parse_value_string: "parse_value E (quote s @ rest) = Some (JStr s, rest)"
  by (simp add: quote_def parse_value_quote parse_chars_quote_chars)

lemma parse_value_other:
  "\<not> is_ws c \<Longrightarrow> c \<noteq> LBRACE \<Longrightarrow> c \<noteq> LBRACKET \<Longrightarrow> c \<noteq> DQUOTE \<Longrightarrow>
   parse_value E (c # r) = parse_literal E (c # r)"
  by (simp add: parse_value.simps [of E "c # r"] skip_ws_not_ws)

lemma parse_value_true: "parse_value E (str ''true'' @ rest) = Some (JBool True, rest)"
  by (simp add: str_def parse_value_other is_ws_def parse_literal_def)

lemma parse_value_false: "parse_value E (str ''false'' @ rest) = Some (JBool False, rest)"
  by (simp add: str_def parse_value_other is_ws_def parse_literal_def)

lemma parse_value_null: "parse_value E (str ''null'' @ rest) = Some (JNull, rest)"
  by (simp add: str_def parse_value_other is_ws_def parse_literal_def)

lemma parse_literal_number:
  "is_digit c \<or> c = MINUS \<Longrightarrow> parse_literal E (c # t) = parse_number E (c # t)"
  by (auto simp: parse_literal_def str_def is_digit_def)

lemma parse_value_number:
  assumes "is_number_literal t" and "ends_value rest"
  shows "parse_value E (t @ rest) = Some (JNum (StringToNumber E t), rest)"
proof -
  obtain c u where cu: "t = c # u" and c: "is_digit c \<or> c = MINUS"
    using scan_number_start [of t t "[]"] assms(1) by (auto simp: is_number_literal_def)
  have "\<not> is_ws c \<and> c \<noteq> LBRACE \<and> c \<noteq> LBRACKET \<and> c \<noteq> DQUOTE"
    using c by (auto simp: is_digit_def is_ws_def)
  then have "parse_value E (c # u @ rest) = parse_number E (c # u @ rest)"
    using c by (simp add: parse_value_other parse_literal_number)
  then show ?thesis using parse_number_literal [OF assms, of E] cu by simp
qed

lemma number_literal_starts: "is_number_literal t \<Longrightarrow> starts_value t"
  using scan_number_start [of t t "[]"]
  by (auto simp: is_number_literal_def starts_value_def is_digit_def is_ws_def)

lemma wf_elements_iff: "wf_elements E vs = (\<forall>v \<in> set vs. wf_json E v)"
  by (induction vs) auto

lemma wf_members_values: "wf_members E ms \<Longrightarrow> m \<in> set ms \<Longrightarrow> wf_json E (snd m)"
  by (induction ms) auto

lemma stringify_elements_map: "stringify_elements E vs = map (JSON_stringify E) vs"
  by (induction vs) auto

lemma stringify_members_map:
  "stringify_members E ms = map (\<lambda>m. quote (fst m) @ COLON # JSON_stringify E (snd m)) ms"
  by (induction ms) auto

lemma join_Cons: "ys \<noteq> [] \<Longrightarrow> join sep (x # ys) = x @ sep @ join sep ys"
  by (cases ys) auto

lemma roundtrips_nonempty: "roundtrips E v \<Longrightarrow> JSON_stringify E v \<noteq> []"
  by (auto simp: roundtrips_def starts_value_def)

lemma parse_elements_one:
  assumes "roundtrips E v" and "all_ws pre" and "all_ws post"
  shows "parse_elements E (pre @ JSON_stringify E v @ post @ RBRACKET # rest) = Some ([v], rest)"
proof -
  have e: "ends_value (post @ RBRACKET # rest)"
    using assms(3) by (simp add: ends_value_all_ws)
  have p: "parse_value E (pre @ JSON_stringify E v @ post @ RBRACKET # rest) =
             Some (v, post @ RBRACKET # rest)"
    using assms(1) e by (simp add: parse_value_all_ws [OF assms(2)] roundtrips_def)
  have s: "skip_ws (post @ RBRACKET # rest) = RBRACKET # rest"
    by (simp add: skip_ws_all_ws [OF assms(3)] skip_ws_not_ws is_ws_def)
  show ?thesis
    using roundtrips_nonempty [OF assms(1)]
    by (subst parse_elements.simps) (simp add: p s)
qed

lemma parse_elements_more:
  assumes "roundtrips E v" and "all_ws pre"
    and "parse_elements E t = Some (vs, rest)"
  shows "parse_elements E (pre @ JSON_stringify E v @ COMMA # t) = Some (v # vs, rest)"
proof -
  have p: "parse_value E (pre @ JSON_stringify E v @ COMMA # t) = Some (v, COMMA # t)"
    using assms(1) by (simp add: parse_value_all_ws [OF assms(2)] roundtrips_def ends_value_delimiter)
  have s: "skip_ws (COMMA # t) = COMMA # t"
    by (simp add: skip_ws_not_ws is_ws_def)
  show ?thesis
    using roundtrips_nonempty [OF assms(1)]
    by (subst parse_elements.simps) (simp add: p s assms(3))
qed

lemma parse_elements_roundtrip:
  assumes "vs \<noteq> []" and "\<forall>v \<in> set vs. roundtrips E v" and "all_ws pre" and "all_ws post"
  shows "parse_elements E (join [COMMA] (map (\<lambda>v. pre @ JSON_stringify E v) vs) @
                           post @ RBRACKET # rest) = Some (vs, rest)"
  using assms(1,2)
proof (induction vs rule: list_nonempty_induct)
  case (single v)
  then show ?case using parse_elements_one [OF _ assms(3,4), of E v rest] by simp
next
  case (cons v vs)
  then show ?case
    using parse_elements_more [OF _ assms(3), of E v]
    by (simp add: join_Cons)
qed

lemma parse_value_array:
  assumes "vs \<noteq> []" and "\<forall>v \<in> set vs. roundtrips E v" and "all_ws pre" and "all_ws post"
  shows "parse_value E (LBRACKET # join [COMMA] (map (\<lambda>v. pre @ JSON_stringify E v) vs) @
                        post @ RBRACKET # rest) = Some (JArr vs, rest)"
proof -
  let ?r = "join [COMMA] (map (\<lambda>v. pre @ JSON_stringify E v) vs) @ post @ RBRACKET # rest"
  obtain v vs' where vs: "vs = v # vs'" using assms(1) by (cases vs) auto
  then have "starts_value (JSON_stringify E v)" using assms(2) by (simp add: roundtrips_def)
  then obtain c t where ct: "JSON_stringify E v = c # t" and c: "\<not> is_ws c" "c \<noteq> RBRACKET"
    by (cases "JSON_stringify E v") (auto simp: starts_value_def)
  have "\<exists>u. ?r = pre @ c # u"
    unfolding vs by (cases vs') (simp_all add: ct)
  then obtain u where u: "?r = pre @ c # u" by blast
  have s: "skip_ws ?r = c # u"
    unfolding u by (simp add: skip_ws_all_ws [OF assms(3)] skip_ws_not_ws c)
  show ?thesis
    using c parse_elements_roundtrip [OF assms, of rest] s
    by (subst parse_value.simps) (simp add: skip_ws_not_ws is_ws_def)
qed

lemma parse_value_empty_array: "parse_value E (LBRACKET # RBRACKET # rest) = Some (JArr [], rest)"
  by (subst parse_value.simps) (simp add: skip_ws_not_ws is_ws_def)

lemma parse_value_empty_object: "parse_value E (LBRACE # RBRACE # rest) = Some (JObj [], rest)"
  by (subst parse_value.simps) (simp add: skip_ws_not_ws is_ws_def)

lemma parse_members_one:
  assumes "roundtrips E v"
  shows "parse_members E (quote k @ COLON # JSON_stringify E v @ RBRACE # rest) =
           Some ([(k, v)], rest)"
proof -
  have p: "parse_value E (JSON_stringify E v @ RBRACE # rest) = Some (v, RBRACE # rest)"
    using assms by (simp add: roundtrips_def ends_value_delimiter)
  show ?thesis
    using roundtrips_nonempty [OF assms]
    by (subst parse_members.simps)
      (simp add: quote_def skip_ws_not_ws is_ws_def parse_chars_quote_chars p)
qed

lemma parse_members_more:
  assumes "roundtrips E v" and "parse_members E t = Some (ms, rest)"
  shows "parse_members E (quote k @ COLON # JSON_stringify E v @ COMMA # t) =
           Some ((k, v) # ms, rest)"
proof -
  have p: "parse_value E (JSON_stringify E v @ COMMA # t) = Some (v, COMMA # t)"
    using assms(1) by (simp add: roundtrips_def ends_value_delimiter)
  show ?thesis
    using roundtrips_nonempty [OF assms(1)]
    by (subst parse_members.simps)
      (simp add: quote_def skip_ws_not_ws is_ws_def parse_chars_quote_chars p assms(2))
qed

lemma parse_members_roundtrip:
  assumes "ms \<noteq> []" and "\<forall>m \<in> set ms. roundtrips E (snd m)"
  shows "parse_members E (join [COMMA]
                          (map (\<lambda>m. quote (fst m) @ COLON # JSON_stringify E (snd m)) ms) @
                        RBRACE # rest) = Some (ms, rest)"
  using assms
proof (induction ms rule: list_nonempty_induct)
  case (single m)
  then show ?case using parse_members_one [of E "snd m" "fst m" rest] by simp
next
  case (cons m ms)
  then show ?case
    using parse_members_more [of E "snd m" _ ms rest "fst m"]
    by (simp add: join_Cons)
qed

lemma update_fresh: "k \<notin> fst ` set al \<Longrightarrow> AList.update k v al = al @ [(k, v)]"
  by (induction al) auto

lemma make_object_aux:
  "distinct (map fst (acc @ ms)) \<Longrightarrow>
   foldl (\<lambda>obj (k, v). AList.update k v obj) acc ms = acc @ ms"
proof (induction ms arbitrary: acc)
  case Nil
  then show ?case by simp
next
  case (Cons m ms)
  obtain k v where m: "m = (k, v)" by (cases m)
  have "k \<notin> fst ` set acc" using Cons.prems m by auto
  then have u: "AList.update k v acc = acc @ [(k, v)]" by (rule update_fresh)
  have "distinct (map fst ((acc @ [(k, v)]) @ ms))" using Cons.prems m by simp
  from Cons.IH [OF this] show ?case by (simp add: m u)
qed

lemma make_object_distinct:
  "distinct (map fst ms) \<Longrightarrow> own_property_order ms = ms \<Longrightarrow> make_object ms = JObj ms"
  using make_object_aux [of "[]" ms] by (simp add: make_object_def)

lemma parse_value_object:
  assumes "ms \<noteq> []" and "\<forall>m \<in> set ms. roundtrips E (snd m)" and "distinct (map fst ms)"
    and "own_property_order ms = ms"
  shows "parse_value E (LBRACE # join [COMMA]
                          (map (\<lambda>m. quote (fst m) @ COLON # JSON_stringify E (snd m)) ms) @
                        RBRACE # rest) = Some (JObj ms, rest)"
proof -
  let ?r = "join [COMMA] (map (\<lambda>m. quote (fst m) @ COLON # JSON_stringify E (snd m)) ms) @
            RBRACE # rest"
  obtain m ms' where ms: "ms = m # ms'" using assms(1) by (cases ms) auto
  have "\<exists>u. ?r = DQUOTE # u"
    unfolding ms by (cases ms') (simp_all add: quote_def)
  then obtain u where u: "?r = DQUOTE # u" by blast
  have s: "skip_ws ?r = DQUOTE # u"
    unfolding u by (simp add: skip_ws_not_ws is_ws_def)
  show ?thesis
    using parse_members_roundtrip [OF assms(1,2), of rest] make_object_distinct [OF assms(3,4)] s
    by (subst parse_value.simps) (simp add: skip_ws_not_ws is_ws_def)
qed

lemma roundtrips_all: "wf_json E v \<Longrightarrow> roundtrips E v"
proof (induction v)
  case JNull
  show ?case
    by (simp add: roundtrips_def parse_value_null) (simp add: starts_value_def str_def is_ws_def)
next
  case (JBool b)
  have "starts_value (str ''true'')" and "starts_value (str ''false'')"
    by (simp_all add: starts_value_def str_def is_ws_def)
  then show ?case
    by (cases b) (simp_all add: roundtrips_def parse_value_true parse_value_false)
next
  case (JNum x)
  then show ?case
    by (simp add: roundtrips_def wf_number_def parse_value_number number_literal_starts)
next
  case (JStr s)
  show ?case
    by (simp add: roundtrips_def parse_value_string) (simp add: quote_def starts_value_def is_ws_def)
next
  case (JArr vs)
  have all: "\<forall>v \<in> set vs. roundtrips E v"
    using JArr by (simp add: wf_elements_iff)
  show ?case
  proof (cases "vs = []")
    case True
    then show ?thesis
      by (simp add: roundtrips_def parse_value_empty_array starts_value_def is_ws_def)
  next
    case False
    have "all_ws []" by (simp add: all_ws_def)
    from parse_value_array [OF False all this this]
    show ?thesis
      by (simp add: roundtrips_def stringify_elements_map starts_value_def is_ws_def)
  qed
next
  case (JObj ms)
  have all: "\<forall>m \<in> set ms. roundtrips E (snd m)"
  proof
    fix m assume m: "m \<in> set ms"
    then have "wf_json E (snd m)" using JObj.prems wf_members_values [of E ms m] by simp
    moreover have "snd m \<in> Basic_BNFs.snds m"
      by (cases m) simp
    ultimately show "roundtrips E (snd m)" using JObj.IH m by blast
  qed
  have d: "distinct (map fst ms)" and o: "own_property_order ms = ms"
    using JObj.prems by simp_all
  show ?case
  proof (cases "ms = []")
    case True
    then show ?thesis
      by (simp add: roundtrips_def parse_value_empty_object starts_value_def is_ws_def)
  next
    case False
    from parse_value_object [OF False all d o]
    show ?thesis
      by (simp add: roundtrips_def stringify_members_map starts_value_def is_ws_def)
  qed
qed

lemma ends_value_Nil: "ends_value []"
  by (simp add: ends_value_def)

lemma JSON_parse_stringify: "wf_json E v \<Longrightarrow> JSON_parse E (JSON_stringify E v) = Some v"
  using roundtrips_all [of E v] ends_value_Nil
  by (auto simp: roundtrips_def JSON_parse_def skip_ws_def)

section \<open>The parser consumes what it reads\<close>

lemma cons_char_Some: "cons_char c x = Some (t, r) \<Longrightarrow> \<exists>t'. t = c # t' \<and> x = Some (t', r)"
  by (cases x) (auto simp: cons_char_def)

lemma parse_fraction_length: "parse_fraction s = Some (fr, r) \<Longrightarrow> length r \<le> length s"
  using length_dropWhile_le [of is_digit "tl s"]
  by (auto simp: parse_fraction_def split: list.splits if_splits)

lemma parse_exponent_length: "parse_exponent s = Some (ex, r) \<Longrightarrow> length r \<le> length s"
  using length_dropWhile_le [of is_digit "tl s"] length_dropWhile_le [of is_digit "tl (tl s)"]
  by (auto simp: parse_exponent_def Let_def split: list.splits if_splits)

lemma dropWhile_shorter: "takeWhile P s \<noteq> [] \<Longrightarrow> length (dropWhile P s) < length s"
  by (cases s) (auto simp: le_imp_less_Suc length_dropWhile_le split: if_splits)

lemma scan_number_shorter:
  assumes a: "scan_number s = Some (t, r)"
  shows "length r < length s"
proof -
  define s1 where "s1 = (case s of [] \<Rightarrow> s | c # u \<Rightarrow> if c = MINUS then u else s)"
  have l1: "length s1 \<le> length s"
    by (auto simp: s1_def split: list.splits)
  have "\<exists>sg. (case s of [] \<Rightarrow> ([], s)
                | c # u \<Rightarrow> if c = MINUS then ([MINUS], u) else ([], s)) = (sg, s1)"
    by (auto simp: s1_def split: list.splits)
  then obtain sg where sg: "(case s of [] \<Rightarrow> ([], s)
                | c # u \<Rightarrow> if c = MINUS then ([MINUS], u) else ([], s)) = (sg, s1)"
    by blast
  have b: "(if takeWhile is_digit s1 = [] \<or>
              (hd (takeWhile is_digit s1) = 48 \<and> 1 < length (takeWhile is_digit s1)) then None
            else (case parse_fraction (dropWhile is_digit s1) of
              None \<Rightarrow> None
            | Some (fr, s2) \<Rightarrow>
                (case parse_exponent s2 of
                   None \<Rightarrow> None
                 | Some (ex, s3) \<Rightarrow> Some (sg @ takeWhile is_digit s1 @ fr @ ex, s3)))) =
           Some (t, r)"
    using a unfolding scan_number_def sg by (simp add: Let_def)
  then have ne: "takeWhile is_digit s1 \<noteq> []"
    by (auto split: if_splits)
  from b ne obtain fr s2 where f: "parse_fraction (dropWhile is_digit s1) = Some (fr, s2)"
    by (cases "parse_fraction (dropWhile is_digit s1)") (auto split: if_splits)
  from b ne f obtain ex where e: "parse_exponent s2 = Some (ex, r)"
    by (cases "parse_exponent s2") (auto split: if_splits)
  show ?thesis
    using l1 dropWhile_shorter [OF ne] parse_fraction_length [OF f] parse_exponent_length [OF e]
    by simp
qed

lemma parse_number_shorter: "parse_number E s = Some (v, r) \<Longrightarrow> length r < length s"
  using scan_number_shorter [of s _ r]
  by (auto simp: parse_number_def split: option.splits)

lemma drop_shorter: "take n s = x \<Longrightarrow> x \<noteq> [] \<Longrightarrow> length (drop n s) < length s"
  by (cases s; cases n) auto

lemma parse_literal_shorter:
  assumes a: "parse_literal E s = Some (v, r)"
  shows "length r < length s"
proof (cases "take 4 s = str ''true''")
  case True
  then have "r = drop 4 s" using a by (simp add: parse_literal_def)
  then show ?thesis using drop_shorter [OF True] by (simp add: str_def)
next
  case nt: False
  show ?thesis
  proof (cases "take 5 s = str ''false''")
    case True
    then have "r = drop 5 s" using a nt by (simp add: parse_literal_def)
    then show ?thesis using drop_shorter [OF True] by (simp add: str_def)
  next
    case nf: False
    show ?thesis
    proof (cases "take 4 s = str ''null''")
      case True
      then have "r = drop 4 s" using a nt nf by (simp add: parse_literal_def)
      then show ?thesis using drop_shorter [OF True] by (simp add: str_def)
    next
      case False
      then have "parse_number E s = Some (v, r)" using a nt nf by (simp add: parse_literal_def)
      then show ?thesis by (rule parse_number_shorter)
    qed
  qed
qed

lemma parse_chars_step:
  assumes "parse_chars (c # cs) = Some (t, r)"
  shows "r = cs \<or> (\<exists>u t'. length u \<le> length cs \<and> parse_chars u = Some (t', r))"
proof (cases "c = DQUOTE")
  case True
  then show ?thesis using assms by simp
next
  case nq: False
  show ?thesis
  proof (cases "c = BACKSLASH")
    case True
    then obtain e es where cs: "cs = e # es" using assms by (cases cs) auto
    show ?thesis
    proof (cases "e = 117")
      case True
      then obtain a b c' d r0 where es: "es = a # b # c' # d # r0"
        using assms \<open>c = BACKSLASH\<close> cs
        by (cases es; cases "tl es"; cases "tl (tl es)"; cases "tl (tl (tl es))") auto
      then obtain u where "cons_char u (parse_chars r0) = Some (t, r)"
        using assms \<open>c = BACKSLASH\<close> cs True by (cases "hex4 a b c' d") auto
      then obtain t' where "parse_chars r0 = Some (t', r)"
        using cons_char_Some by blast
      then show ?thesis using cs es by (intro disjI2 exI [of _ r0] exI [of _ t']) simp
    next
      case False
      then obtain u where "cons_char u (parse_chars es) = Some (t, r)"
        using assms \<open>c = BACKSLASH\<close> cs by (cases "unescape_char e") auto
      then obtain t' where "parse_chars es = Some (t', r)"
        using cons_char_Some by blast
      then show ?thesis using cs by (intro disjI2 exI [of _ es] exI [of _ t']) simp
    qed
  next
    case False
    then have "cons_char c (parse_chars cs) = Some (t, r)"
      using assms nq by (auto split: if_splits)
    then obtain t' where "parse_chars cs = Some (t', r)"
      using cons_char_Some by blast
    then show ?thesis by (intro disjI2 exI [of _ cs] exI [of _ t']) simp
  qed
qed

lemma parse_chars_shorter: "parse_chars s = Some (t, r) \<Longrightarrow> length r < length s"
proof (induction "length s" arbitrary: s t rule: less_induct)
  case less
  show ?case
  proof (cases s)
    case Nil
    then show ?thesis using less.prems by simp
  next
    case (Cons c cs)
    from parse_chars_step [of c cs t r] less.prems Cons
    consider "r = cs" | u t' where "length u \<le> length cs" "parse_chars u = Some (t', r)"
      by blast
    then show ?thesis
    proof cases
      case 1
      then show ?thesis using Cons by simp
    next
      case 2
      then have "length r < length u" using less.hyps [of u t'] Cons by simp
      then show ?thesis using 2 Cons by simp
    qed
  qed
qed

lemma parse_value_cases:
  assumes "parse_value E s = Some (v, r)"
  obtains (object_empty) c t d where "skip_ws s = c # t" "skip_ws t = d # r"
  | (object) c t ms where "skip_ws s = c # t" "parse_members E t = Some (ms, r)"
  | (array) c t vs where "skip_ws s = c # t" "parse_elements E t = Some (vs, r)"
  | (string) c t k where "skip_ws s = c # t" "parse_chars t = Some (k, r)"
  | (literal) "parse_literal E (skip_ws s) = Some (v, r)"
proof (cases "skip_ws s")
  case Nil
  then show ?thesis using assms by (subst (asm) parse_value.simps) simp
next
  case (Cons c t)
  show ?thesis
  proof (cases "c = LBRACE")
    case True
    show ?thesis
    proof (cases "skip_ws t")
      case Nil
      then show ?thesis using assms Cons True by (subst (asm) parse_value.simps) simp
    next
      case inner: (Cons d t')
      show ?thesis
      proof (cases "d = RBRACE")
        case True
        then have "r = t'" using assms Cons \<open>c = LBRACE\<close> inner
          by (subst (asm) parse_value.simps) simp
        then show ?thesis using object_empty Cons inner by simp
      next
        case False
        then obtain ms where "parse_members E t = Some (ms, r)"
          using assms Cons \<open>c = LBRACE\<close> inner
          by (subst (asm) parse_value.simps) (auto split: option.splits)
        then show ?thesis using object Cons by simp
      qed
    qed
  next
    case nb: False
    show ?thesis
    proof (cases "c = LBRACKET")
      case True
      show ?thesis
      proof (cases "skip_ws t")
        case Nil
        then show ?thesis using assms Cons True by (subst (asm) parse_value.simps) simp
      next
        case inner: (Cons d t')
        show ?thesis
        proof (cases "d = RBRACKET")
          case True
          then have "r = t'" using assms Cons \<open>c = LBRACKET\<close> inner
            by (subst (asm) parse_value.simps) simp
          then show ?thesis using object_empty Cons inner by simp
        next
          case False
          then obtain vs where "parse_elements E t = Some (vs, r)"
            using assms Cons \<open>c = LBRACKET\<close> inner
            by (subst (asm) parse_value.simps) (auto split: option.splits)
          then show ?thesis using array Cons by simp
        qed
      qed
    next
      case nk: False
      show ?thesis
      proof (cases "c = DQUOTE")
        case True
        then obtain k where "parse_chars t = Some (k, r)"
          using assms Cons by (subst (asm) parse_value.simps) (auto split: option.splits)
        then show ?thesis using string Cons by simp
      next
        case False
        then have "parse_literal E (c # t) = Some (v, r)"
          using assms Cons nb nk by (subst (asm) parse_value.simps) simp
        then show ?thesis using literal Cons by simp
      qed
    qed
  qed
qed

lemma parse_elements_cases:
  assumes "parse_elements E s = Some (vs, r)"
  shows "\<exists>v r1 c t. parse_value E s = Some (v, r1) \<and> length r1 < length s \<and> skip_ws r1 = c # t \<and>
           (r = t \<or> (\<exists>vs'. parse_elements E t = Some (vs', r)))"
proof -
  obtain v r1 where p: "parse_value E s = Some (v, r1)"
    using assms by (subst (asm) parse_elements.simps) (auto split: option.splits)
  have l: "length r1 < length s"
    using assms p by (subst (asm) parse_elements.simps) (auto split: if_splits)
  obtain c t where k: "skip_ws r1 = c # t"
    using assms p l by (subst (asm) parse_elements.simps) (auto split: list.splits)
  have "r = t \<or> (\<exists>vs'. parse_elements E t = Some (vs', r))"
    using assms p l k
    by (subst (asm) parse_elements.simps) (auto split: if_splits option.splits)
  then show ?thesis using p l k by blast
qed

lemma parse_members_cases:
  assumes "parse_members E s = Some (ms, r)"
  shows "\<exists>q t k r1 c r2 v r3 e r4.
           skip_ws s = q # t \<and> parse_chars t = Some (k, r1) \<and> skip_ws r1 = c # r2 \<and>
           parse_value E r2 = Some (v, r3) \<and> length r3 < length r2 \<and> skip_ws r3 = e # r4 \<and>
           (r = r4 \<or> (\<exists>ms'. parse_members E r4 = Some (ms', r)))"
proof -
  obtain q t where 1: "skip_ws s = q # t"
    using assms by (subst (asm) parse_members.simps) (auto split: list.splits)
  have q: "q = DQUOTE"
    using assms 1 by (subst (asm) parse_members.simps) (auto split: if_splits)
  obtain k r1 where 2: "parse_chars t = Some (k, r1)"
    using assms 1 q by (subst (asm) parse_members.simps) (auto split: option.splits)
  have l1: "length r1 < length t"
    using 2 by (rule parse_chars_shorter)
  obtain c r2 where 3: "skip_ws r1 = c # r2"
    using assms 1 q 2 l1 by (subst (asm) parse_members.simps) (auto split: list.splits)
  have c: "c = COLON"
    using assms 1 q 2 l1 3 by (subst (asm) parse_members.simps) (auto split: if_splits)
  obtain v r3 where 4: "parse_value E r2 = Some (v, r3)"
    using assms 1 q 2 l1 3 c by (subst (asm) parse_members.simps) (auto split: option.splits)
  have l3: "length r3 < length r2"
    using assms 1 q 2 l1 3 c 4 by (subst (asm) parse_members.simps) (auto split: if_splits)
  obtain e r4 where 5: "skip_ws r3 = e # r4"
    using assms 1 q 2 l1 3 c 4 l3 by (subst (asm) parse_members.simps) (auto split: list.splits)
  have "r = r4 \<or> (\<exists>ms'. parse_members E r4 = Some (ms', r))"
    using assms 1 q 2 l1 3 c 4 l3 5
    by (subst (asm) parse_members.simps) (auto split: if_splits option.splits)
  then show ?thesis using 1 2 3 4 l3 5 by blast
qed

lemma parsers_shorter:
  "(\<forall>v r. parse_value E s = Some (v, r) \<longrightarrow> length r < length s) \<and>
   (\<forall>vs r. parse_elements E s = Some (vs, r) \<longrightarrow> length r < length s) \<and>
   (\<forall>ms r. parse_members E s = Some (ms, r) \<longrightarrow> length r < length s)"
proof (induction "length s" arbitrary: s rule: less_induct)
  case less
  have pv: "length r < length s" if a: "parse_value E s = Some (v, r)" for v r
    using a
  proof (cases rule: parse_value_cases)
    case (object_empty c t d)
    then show ?thesis
      using skip_ws_Cons_length [of s c t] skip_ws_Cons_length [of t d r] by simp
  next
    case (object c t ms)
    then show ?thesis
      using skip_ws_Cons_length [of s c t] less [of t] by fastforce
  next
    case (array c t vs)
    then show ?thesis
      using skip_ws_Cons_length [of s c t] less [of t] by fastforce
  next
    case (string c t k)
    then show ?thesis
      using skip_ws_Cons_length [of s c t] parse_chars_shorter [of t k r] by simp
  next
    case literal
    then show ?thesis
      using parse_literal_shorter [of E "skip_ws s" v r] skip_ws_length [of s] by simp
  qed
  have pe: "length r < length s" if a: "parse_elements E s = Some (vs, r)" for vs r
  proof -
    from parse_elements_cases [OF a] obtain v r1 c t where
      l: "length r1 < length s" and k: "skip_ws r1 = c # t"
      and d: "r = t \<or> (\<exists>vs'. parse_elements E t = Some (vs', r))"
      by blast
    have t: "length t < length s" using l skip_ws_Cons_length [OF k] by simp
    from d show ?thesis
    proof
      assume "r = t"
      then show ?thesis using t by simp
    next
      assume "\<exists>vs'. parse_elements E t = Some (vs', r)"
      then show ?thesis using less [OF t] t by fastforce
    qed
  qed
  have pm: "length r < length s" if a: "parse_members E s = Some (ms, r)" for ms r
  proof -
    from parse_members_cases [OF a] obtain q t k r1 c r2 v r3 e r4 where
      1: "skip_ws s = q # t" and 2: "parse_chars t = Some (k, r1)" and 3: "skip_ws r1 = c # r2"
      and l3: "length r3 < length r2" and 5: "skip_ws r3 = e # r4"
      and d: "r = r4 \<or> (\<exists>ms'. parse_members E r4 = Some (ms', r))"
      by blast
    have t: "length r4 < length s"
      using skip_ws_Cons_length [OF 1] parse_chars_shorter [OF 2] skip_ws_Cons_length [OF 3] l3
        skip_ws_Cons_length [OF 5] by simp
    from d show ?thesis
    proof
      assume "r = r4"
      then show ?thesis using t by simp
    next
      assume "\<exists>ms'. parse_members E r4 = Some (ms', r)"
      then show ?thesis using less [OF t] t by fastforce
    qed
  qed
  show ?case using pv pe pm by blast
qed

lemma parse_value_shorter: "parse_value E s = Some (v, r) \<Longrightarrow> length r < length s"
  using parsers_shorter by blast

section \<open>Properties of the projection\<close>

lemma pick_keys_aux:
  "fst ` set (foldl (\<lambda>res key. case map_of obj key of
                                  None \<Rightarrow> res
                                | Some v \<Rightarrow> AList.update key v res) acc keys)
     \<subseteq> fst ` set acc \<union> set keys"
proof (induction keys arbitrary: acc)
  case Nil
  then show ?case by simp
next
  case (Cons k keys)
  show ?case
  proof (cases "map_of obj k")
    case None
    then show ?thesis using Cons.IH [of acc] by auto
  next
    case (Some v)
    then show ?thesis using Cons.IH [of "AList.update k v acc"]
      by (auto simp: dom_update)
  qed
qed

lemma pick_keys: "fst ` set (pick obj keys) \<subseteq> set keys"
  using pick_keys_aux [of obj "[]" keys] by (simp add: pick_def)

lemma pick_absent: "k \<notin> set keys \<Longrightarrow> map_of (pick obj keys) k = None"
  using pick_keys [of obj keys] by (auto simp: map_of_eq_None_iff)

lemma pick_empty: "pick [] keys = []"
  unfolding pick_def by (induction keys) simp_all

lemma mounts_not_config: "str ''mounts'' \<notin> set pickConfigProperties"
  by (simp add: pickConfigProperties_def str_def)

lemma containerUser_not_config: "str ''containerUser'' \<notin> set pickConfigProperties"
  by (simp add: pickConfigProperties_def str_def)

lemma containerEnv_not_config: "str ''containerEnv'' \<notin> set pickConfigProperties"
  by (simp add: pickConfigProperties_def str_def)

lemma map_of_pick_aux:
  "map_of (foldl (\<lambda>res key. case map_of obj key of
                                None \<Rightarrow> res
                              | Some v \<Rightarrow> AList.update key v res) acc keys) k =
     (if k \<in> set keys \<and> map_of obj k \<noteq> None then map_of obj k else map_of acc k)"
proof (induction keys arbitrary: acc)
  case Nil
  show ?case by simp
next
  case (Cons key keys)
  show ?case
  proof (cases "map_of obj key")
    case None
    then show ?thesis using Cons [of acc] by auto
  next
    case (Some v)
    then show ?thesis using Cons [of "AList.update key v acc"]
      by (auto simp: update_conv')
  qed
qed

lemma map_of_pick: "map_of (pick obj keys) = map_of obj |` set keys"
proof
  fix k
  show "map_of (pick obj keys) k = (map_of obj |` set keys) k"
    using map_of_pick_aux [of obj "[]" keys k] by (auto simp: pick_def restrict_map_def)
qed

text \<open>
  C10. For every configuration object and every feature list, given as an array or as
  feature sets, the current layer is one entry per feature, in the order of the list
  (of the sets and of the features in each set), followed by exactly one entry for the
  configuration: its length is the number of features plus one, the fields of the
  entry at a feature's place are the allow-listed fields of that feature, and the
  configuration's entry is appended also when it has no field at all, as for the empty
  configuration.
\<close>

theorem getDevcontainerMetadata_shape:
  "getDevcontainerMetadata config (Array fs) =
     map (\<lambda>feature. JObj (pick feature pickFeatureProperties)) fs @
     [JObj (pick config (if map_of config (str ''dockerComposeFile'') \<noteq> None
                         then pickConfigProperties
                         else pickSingleContainerConfigProperties))] \<and>
   getDevcontainerMetadata config (Config c) =
     map (\<lambda>feature. JObj (pick feature pickFeatureProperties))
       (concat (map features (featureSets c))) @
     [JObj (pick config (if map_of config (str ''dockerComposeFile'') \<noteq> None
                         then pickConfigProperties
                         else pickSingleContainerConfigProperties))] \<and>
   length (getDevcontainerMetadata config (Array fs)) = length fs + 1 \<and>
   length (getDevcontainerMetadata config (Config c)) =
     sum_list (map (\<lambda>featureSet. length (features featureSet)) (featureSets c)) + 1 \<and>
   map entry_fields (getDevcontainerMetadata config (Array fs)) =
     map (\<lambda>feature. map_of feature |` set pickFeatureProperties) fs @
     [map_of config |` set (if map_of config (str ''dockerComposeFile'') \<noteq> None
                            then pickConfigProperties
                            else pickSingleContainerConfigProperties)] \<and>
   getDevcontainerMetadata [] (Array fs) =
     map (\<lambda>feature. JObj (pick feature pickFeatureProperties)) fs @ [JObj []] \<and>
   getDevcontainerMetadata [] (Config c) =
     map (\<lambda>feature. JObj (pick feature pickFeatureProperties))
       (concat (map features (featureSets c))) @ [JObj []]"
  by (simp add: getDevcontainerMetadata_def features_list_def pick_empty length_concat
      entry_fields_def map_of_pick comp_def)

text \<open>
  C6. For every configuration object that has the key \<open>dockerComposeFile\<close>, the entry
  projected for the configuration (the last of the sequence) has none of the keys
  \<open>mounts\<close>, \<open>containerUser\<close> and \<open>containerEnv\<close>, whatever the configuration holds.
\<close>

theorem compose_projection_excludes:
  assumes "map_of config (str ''dockerComposeFile'') \<noteq> None"
  shows "\<exists>entry. last (getDevcontainerMetadata config fc) = JObj entry \<and>
           map_of entry (str ''mounts'') = None \<and>
           map_of entry (str ''containerUser'') = None \<and>
           map_of entry (str ''containerEnv'') = None"
  using assms
  by (simp add: getDevcontainerMetadata_def pick_absent mounts_not_config
        containerUser_not_config containerEnv_not_config)

theorem compose_projection_excludes_witness:
  "map_of [(str ''dockerComposeFile'', JStr (str ''c.yml'')), (str ''mounts'', JArr []),
           (str ''containerUser'', JStr (str ''u'')), (str ''remoteUser'', JStr (str ''v''))]
     (str ''dockerComposeFile'') \<noteq> None \<and>
   (\<exists>entry. last (getDevcontainerMetadata
                [(str ''dockerComposeFile'', JStr (str ''c.yml'')), (str ''mounts'', JArr []),
                 (str ''containerUser'', JStr (str ''u'')), (str ''remoteUser'', JStr (str ''v''))]
                (Array [])) = JObj entry \<and>
           map_of entry (str ''mounts'') = None \<and>
           map_of entry (str ''containerUser'') = None \<and>
           map_of entry (str ''containerEnv'') = None)"
proof -
  have h: "map_of [(str ''dockerComposeFile'', JStr (str ''c.yml'')), (str ''mounts'', JArr []),
           (str ''containerUser'', JStr (str ''u'')), (str ''remoteUser'', JStr (str ''v''))]
     (str ''dockerComposeFile'') \<noteq> None"
    by simp
  show ?thesis using h compose_projection_excludes [OF h, of "Array []"] by blast
qed

section \<open>Properties of the merge and of the escaping\<close>

text \<open>
  C7. For every base sequence and every current layer, the merged sequence is the base
  entries followed by the current entries: its length is the sum of the two lengths,
  its first part is the base and the rest the current layer, unchanged (so nothing is
  reordered, removed, deduplicated or modified), also when the base is empty; and the
  label is built from exactly this sequence.
\<close>

theorem merge_is_concatenation:
  "mergedMetadata base config fc = base @ getDevcontainerMetadata config fc \<and>
   length (mergedMetadata base config fc) =
     length base + length (getDevcontainerMetadata config fc) \<and>
   take (length base) (mergedMetadata base config fc) = base \<and>
   drop (length base) (mergedMetadata base config fc) = getDevcontainerMetadata config fc \<and>
   mergedMetadata [] config fc = getDevcontainerMetadata config fc \<and>
   getDevcontainerMetadataLabel E base config fc True =
     str ''LABEL '' @ imageMetadataLabel @ str ''='' @ [DQUOTE] @
     imageMetadataLabelValue E (base @ getDevcontainerMetadata config fc) @ [DQUOTE]"
  by (simp add: mergedMetadata_def getDevcontainerMetadataLabel_def getDevcontainerMetadata_def)

lemma replace_lookahead_concat:
  "replace_lookahead s =
     concat (map (\<lambda>c. if c = DQUOTE \<or> c = BACKSLASH \<or> c = DOLLAR then [BACKSLASH, c] else [c]) s)"
  by (induction s) simp_all

lemma remove_inserted_replace: "remove_inserted (replace_lookahead s @ t) = s @ remove_inserted t"
proof (induction s)
  case Nil
  then show ?case by simp
next
  case (Cons c s)
  show ?case
  proof (cases "c = DQUOTE \<or> c = BACKSLASH \<or> c = DOLLAR")
    case True
    then show ?thesis using Cons by auto
  next
    case False
    then show ?thesis using Cons
      by (cases "replace_lookahead s @ t") auto
  qed
qed

lemma subseq_replace_lookahead: "subseq s (replace_lookahead s)"
  by (induction s) auto

lemma length_replace_lookahead:
  "length (replace_lookahead s) =
     length s + length (filter (\<lambda>c. c = DQUOTE \<or> c = BACKSLASH \<or> c = DOLLAR) s)"
  by (induction s) auto

text \<open>
  C8. For every metadata entry, \<open>toLabelString E\<close> is the serialized JSON with one
  backslash put before every quote, backslash and dollar sign and every other
  character copied: the serialized text is a subsequence of the result, which is longer
  by the number of those characters, and deleting the inserted backslashes gives the
  serialized text back.
\<close>

theorem toLabelString_escaping:
  "toLabelString E obj =
     concat (map (\<lambda>c. if c = DQUOTE \<or> c = BACKSLASH \<or> c = DOLLAR then [BACKSLASH, c] else [c])
               (JSON_stringify E obj)) \<and>
   subseq (JSON_stringify E obj) (toLabelString E obj) \<and>
   length (toLabelString E obj) =
     length (JSON_stringify E obj) +
     length (filter (\<lambda>c. c = DQUOTE \<or> c = BACKSLASH \<or> c = DOLLAR) (JSON_stringify E obj)) \<and>
   remove_inserted (toLabelString E obj) = JSON_stringify E obj"
  using remove_inserted_replace [of "JSON_stringify E obj" "[]"]
  by (simp add: toLabelString_def replace_lookahead_concat [symmetric]
        subseq_replace_lookahead length_replace_lookahead)

section \<open>Properties of the decoder\<close>

lemma internalGetImageMetadata_returns:
  "\<exists>es m. internalGetImageMetadata E d flag = (es, Inr m)"
  by (auto simp: internalGetImageMetadata_def ret_def bind_eff_def call_def
      split: option.splits json.splits)

lemma internalGetImageMetadata_disabled:
  "internalGetImageMetadata E d False = ([], Inr [])"
  by (simp add: internalGetImageMetadata_def ret_def)

lemma JSON_parse_empty: "JSON_parse E [] = None"
  by (simp add: JSON_parse_def parse_value.simps skip_ws_def)

lemma JSON_parse_not_json: "JSON_parse E (str ''not json'') = None"
  by (simp add: JSON_parse_def parse_value.simps skip_ws_def is_ws_def str_def parse_literal_def
      parse_number_def scan_number_def is_digit_def)

text \<open>
  C5, as stated, fails: the empty label string does not parse, and decoding it with the
  flag enabled writes no diagnostic at all, because \<open>if (str)\<close> takes the empty string
  for an absent label before \<open>JSON.parse\<close> is called. With the flag disabled nothing is
  decoded and nothing written, whatever the label.
\<close>

theorem decode_empty_label_counterexample:
  "JSON_parse example_engine [] = None \<and>
   internalGetImageMetadata example_engine (labelled []) True =
     ([], Inr []) \<and>
   JSON_parse example_engine (str ''not json'') = None \<and>
   internalGetImageMetadata example_engine (labelled (str ''not json'')) False =
     ([], Inr [])"
  by (simp add: JSON_parse_empty JSON_parse_not_json internalGetImageMetadata_def labelled_def
      ret_def)

text \<open>
  C5, amended. With the flag enabled, for every label string that is not empty and
  whose parse fails or yields a value that is neither an object nor an array, decoding
  calls \<open>JSON.parse\<close> once, writes exactly one diagnostic message and returns the empty
  sequence, without raising.
\<close>

theorem decode_malformed_label:
  assumes "Config_Labels d = Some labels" and "labels imageMetadataLabel = Some s" and "s \<noteq> []"
    and "JSON_parse E s = None \<or>
         (\<exists>v. JSON_parse E s = Some v \<and> (\<forall>vs. v \<noteq> JArr vs) \<and> (\<forall>ms. v \<noteq> JObj ms))"
  shows "\<exists>m. internalGetImageMetadata E d True = ([JSONParse s, Write m], Inr [])"
  using assms
  by (auto simp: internalGetImageMetadata_def bind_eff_def call_def ret_def split: json.splits)

theorem decode_malformed_label_witness:
  "Config_Labels (labelled (str ''not json'')) = Some [imageMetadataLabel \<mapsto> str ''not json''] \<and>
   [imageMetadataLabel \<mapsto> str ''not json''] imageMetadataLabel = Some (str ''not json'') \<and>
   str ''not json'' \<noteq> [] \<and> JSON_parse example_engine (str ''not json'') = None \<and>
   (\<exists>m. internalGetImageMetadata example_engine (labelled (str ''not json'')) True =
          ([JSONParse (str ''not json''), Write m], Inr []))"
proof -
  have 1: "Config_Labels (labelled (str ''not json'')) = Some [imageMetadataLabel \<mapsto> str ''not json'']"
    by (simp add: labelled_def)
  have 2: "[imageMetadataLabel \<mapsto> str ''not json''] imageMetadataLabel = Some (str ''not json'')"
    by simp
  have 3: "str ''not json'' \<noteq> []"
    by (simp add: str_def)
  have 4: "JSON_parse example_engine (str ''not json'') = None \<or>
         (\<exists>v. JSON_parse example_engine (str ''not json'') = Some v \<and>
              (\<forall>vs. v \<noteq> JArr vs) \<and> (\<forall>ms. v \<noteq> JObj ms))"
    by (simp add: JSON_parse_not_json)
  show ?thesis
    using decode_malformed_label [OF 1 2 3 4] 1 2 3 JSON_parse_not_json by blast
qed

lemma remove_inserted_plain: "c \<noteq> BACKSLASH \<Longrightarrow> remove_inserted (c # t) = c # remove_inserted t"
  by (cases t) auto

lemma read_continued_plain: "c \<noteq> BACKSLASH \<Longrightarrow> read_continued (c # t) = c # read_continued t"
  by (cases t) auto

lemma read_continued_replace: "read_continued (replace_lookahead s @ t) = s @ read_continued t"
proof (induction s)
  case Nil
  then show ?case by simp
next
  case (Cons c s)
  show ?case
  proof (cases "c = DQUOTE \<or> c = BACKSLASH \<or> c = DOLLAR")
    case True
    then show ?thesis using Cons by auto
  next
    case False
    then show ?thesis using Cons by (simp add: read_continued_plain)
  qed
qed

lemma remove_inserted_join:
  "remove_inserted (join [COMMA] (map (\<lambda>f. [SPACE, BACKSLASH, NEWLINE] @ toLabelString E f) es) @ t) =
   join [COMMA] (map (\<lambda>f. [SPACE, NEWLINE] @ JSON_stringify E f) es) @ remove_inserted t"
proof (induction es)
  case Nil
  show ?case by simp
next
  case (Cons e es)
  show ?case
  proof (cases "es = []")
    case True
    then show ?thesis
      by (simp add: toLabelString_def remove_inserted_replace)
  next
    case False
    then show ?thesis using Cons
      by (simp add: join_Cons toLabelString_def remove_inserted_replace remove_inserted_plain)
  qed
qed

lemma read_continued_join:
  "read_continued (join [COMMA] (map (\<lambda>f. [SPACE, BACKSLASH, NEWLINE] @ toLabelString E f) es) @ t) =
   join [COMMA] (map (\<lambda>f. [SPACE] @ JSON_stringify E f) es) @ read_continued t"
proof (induction es)
  case Nil
  show ?case by simp
next
  case (Cons e es)
  show ?case
  proof (cases "es = []")
    case True
    then show ?thesis
      by (simp add: toLabelString_def read_continued_replace)
  next
    case False
    then show ?thesis using Cons
      by (simp add: join_Cons toLabelString_def read_continued_replace read_continued_plain)
  qed
qed

lemma remove_inserted_array:
  "length es \<noteq> 1 \<Longrightarrow>
   remove_inserted (imageMetadataLabelValue E es) =
   LBRACKET # join [COMMA] (map (\<lambda>f. [SPACE, NEWLINE] @ JSON_stringify E f) es) @
   [SPACE, NEWLINE] @ RBRACKET # []"
  using remove_inserted_join [of E es "[SPACE, BACKSLASH, NEWLINE, RBRACKET]"]
  by (simp add: imageMetadataLabelValue_def remove_inserted_plain)

lemma read_continued_array:
  "length es \<noteq> 1 \<Longrightarrow>
   read_continued (imageMetadataLabelValue E es) =
   LBRACKET # join [COMMA] (map (\<lambda>f. [SPACE] @ JSON_stringify E f) es) @
   [SPACE] @ RBRACKET # []"
  using read_continued_join [of E es "[SPACE, BACKSLASH, NEWLINE, RBRACKET]"]
  by (simp add: imageMetadataLabelValue_def read_continued_plain)

lemma wf_entry_roundtrips: "wf_entry E e \<Longrightarrow> roundtrips E e"
  by (cases e) (simp_all add: wf_entry_def roundtrips_all)

lemma JSON_parse_array:
  assumes "es \<noteq> []" and "\<forall>e \<in> set es. wf_entry E e" and "all_ws pre" and "all_ws post"
  shows "JSON_parse E (LBRACKET # join [COMMA] (map (\<lambda>f. pre @ JSON_stringify E f) es) @
                       post @ RBRACKET # []) = Some (JArr es)"
proof -
  have "\<forall>e \<in> set es. roundtrips E e" using assms(2) wf_entry_roundtrips by blast
  from parse_value_array [OF assms(1) this assms(3,4), of "[]"]
  show ?thesis by (simp add: JSON_parse_def skip_ws_def)
qed

lemma decode_label_text:
  assumes "t \<noteq> []" and "JSON_parse E t = Some v" and "v = JArr es \<or> (\<exists>ms. v = JObj ms \<and> es = [v])"
  shows "internalGetImageMetadata E (labelled t) True = ([JSONParse t], Inr es)"
  using assms
  by (auto simp: internalGetImageMetadata_def labelled_def bind_eff_def call_def ret_def)

text \<open>
  C3. For every engine and every non-empty sequence of well-formed entries (objects of
  values that objects read from JSON text hold, their numbers printed and read back by
  the engine as ECMAScript guarantees), decoding (with the flag enabled) the label
  value with its inserted backslashes removed calls \<open>JSON.parse\<close> once, writes nothing
  and returns the sequence itself, entry for entry in the same order. This holds when
  only the backslashes are removed, which leaves the line breaks of the continuation
  markers as white space, and when the text is read as the Dockerfile instruction is,
  which drops those line breaks too.
\<close>

theorem label_roundtrip:
  assumes "entries \<noteq> []" and "\<forall>e \<in> set entries. wf_entry E e"
  shows "internalGetImageMetadata E
           (labelled (remove_inserted (imageMetadataLabelValue E entries))) True =
         ([JSONParse (remove_inserted (imageMetadataLabelValue E entries))], Inr entries) \<and>
         internalGetImageMetadata E
           (labelled (read_continued (imageMetadataLabelValue E entries))) True =
         ([JSONParse (read_continued (imageMetadataLabelValue E entries))], Inr entries)"
proof (cases "length entries = 1")
  case True
  then obtain e where e: "entries = [e]" by (cases entries) auto
  then have wf: "wf_entry E e" using assms(2) by simp
  then obtain ms where ms: "e = JObj ms" by (cases e) (simp_all add: wf_entry_def)
  have "wf_json E e" using wf ms by (simp add: wf_entry_def)
  then have p: "JSON_parse E (JSON_stringify E e) = Some e"
    by (rule JSON_parse_stringify)
  have n: "JSON_stringify E e \<noteq> []"
    using wf by (simp add: wf_entry_roundtrips roundtrips_nonempty)
  have r1: "remove_inserted (imageMetadataLabelValue E entries) = JSON_stringify E e"
    using remove_inserted_replace [of "JSON_stringify E e" "[]"]
    by (simp add: e imageMetadataLabelValue_def toLabelString_def)
  have r2: "read_continued (imageMetadataLabelValue E entries) = JSON_stringify E e"
    using read_continued_replace [of "JSON_stringify E e" "[]"]
    by (simp add: e imageMetadataLabelValue_def toLabelString_def)
  have "internalGetImageMetadata E (labelled (JSON_stringify E e)) True =
          ([JSONParse (JSON_stringify E e)], Inr entries)"
    using ms e by (intro decode_label_text [OF n p]) simp
  then show ?thesis by (simp add: r1 r2)
next
  case False
  have w1: "all_ws [SPACE, NEWLINE]" and w2: "all_ws [SPACE]"
    by (simp_all add: all_ws_def is_ws_def)
  have p1: "JSON_parse E (remove_inserted (imageMetadataLabelValue E entries)) = Some (JArr entries)"
    unfolding remove_inserted_array [OF False]
    by (rule JSON_parse_array [OF assms w1 w1])
  have p2: "JSON_parse E (read_continued (imageMetadataLabelValue E entries)) = Some (JArr entries)"
    unfolding read_continued_array [OF False]
    by (rule JSON_parse_array [OF assms w2 w2])
  have n1: "remove_inserted (imageMetadataLabelValue E entries) \<noteq> []"
    by (simp add: remove_inserted_array [OF False])
  have n2: "read_continued (imageMetadataLabelValue E entries) \<noteq> []"
    by (simp add: read_continued_array [OF False])
  show ?thesis
    using decode_label_text [OF n1 p1, of entries] decode_label_text [OF n2 p2, of entries]
    by simp
qed

theorem label_roundtrip_witness:
  "internalGetImageMetadata example_engine
     (labelled (remove_inserted (imageMetadataLabelValue example_engine
        [JObj [(str ''id'', JStr (str ''f'')), (str ''cpus'', JNum (str ''0.5''))],
         JObj [(str ''remoteUser'', JStr (str ''u$''))]]))) True =
   ([JSONParse (remove_inserted (imageMetadataLabelValue example_engine
        [JObj [(str ''id'', JStr (str ''f'')), (str ''cpus'', JNum (str ''0.5''))],
         JObj [(str ''remoteUser'', JStr (str ''u$''))]]))],
    Inr [JObj [(str ''id'', JStr (str ''f'')), (str ''cpus'', JNum (str ''0.5''))],
         JObj [(str ''remoteUser'', JStr (str ''u$''))]])"
proof -
  let ?es = "[JObj [(str ''id'', JStr (str ''f'')), (str ''cpus'', JNum (str ''0.5''))],
              JObj [(str ''remoteUser'', JStr (str ''u$''))]]"
  have 1: "?es \<noteq> []" by simp
  have n: "wf_number example_engine (str ''0.5'')"
    by (simp add: wf_number_def example_engine_def is_number_literal_def scan_number_def
        parse_fraction_def parse_exponent_def is_digit_def str_def)
  have i: "array_index (str ''id'') = None" "array_index (str ''cpus'') = None"
    "array_index (str ''remoteUser'') = None"
    by (simp_all add: array_index_def is_digit_def str_def)
  have k: "str ''id'' \<noteq> str ''cpus''"
    by (simp add: str_def)
  have 2: "\<forall>e \<in> set ?es. wf_entry example_engine e"
    by (simp add: wf_entry_def wf_string_def own_property_order_def i k n) (simp add: str_def)
  show ?thesis
    using label_roundtrip [OF 1 2] by blast
qed

section \<open>Properties of the resolver\<close>

lemma dockerfile_user:
  assumes "internalGetImageBuildInfoFromDockerfile P inspect dockerfile flag = (es, Inr info)"
  shows "user info =
           or_default (or_else (findUserStatement P dockerfile)
                         (inspected_user P inspect dockerfile)) (str ''root'')"
proof -
  have m: "\<And>d. \<exists>es m. getImageMetadata (engine P) d flag = (es, Inr m)"
    using internalGetImageMetadata_returns by (simp add: getImageMetadata_def)
  show ?thesis
  proof (cases "findBaseImage P dockerfile")
    case None
    with assms show ?thesis
      by (auto simp: internalGetImageBuildInfoFromDockerfile_def inspected_user_def
          bind_eff_def ret_def Let_def)
  next
    case (Some b)
    show ?thesis
    proof (cases "b = []")
      case True
      with Some assms show ?thesis
        by (auto simp: internalGetImageBuildInfoFromDockerfile_def inspected_user_def
            bind_eff_def ret_def Let_def)
    next
      case False
      show ?thesis
      proof (cases "inspect b")
        case (Inl e)
        with Some False assms show ?thesis
          by (auto simp: internalGetImageBuildInfoFromDockerfile_def
              bind_eff_def ret_def call_def Let_def)
      next
        case (Inr d)
        obtain es2 m2 where "getImageMetadata (engine P) d flag = (es2, Inr m2)"
          using m by blast
        with Inr Some False assms show ?thesis
          by (auto simp: internalGetImageBuildInfoFromDockerfile_def inspected_user_def
              bind_eff_def ret_def call_def Let_def)
      qed
    qed
  qed
qed

lemma image_user:
  assumes "getImageBuildInfoFromImage P imageName flag = (es, Inr info)"
    and "inspectDockerImage P imageName = Inr d"
  shows "user info = (if Config_User d = [] then str ''root'' else Config_User d)"
proof -
  obtain es2 m2 where "getImageMetadata (engine P) d flag = (es2, Inr m2)"
    using internalGetImageMetadata_returns by (metis getImageMetadata_def)
  with assms show ?thesis
    by (auto simp: getImageBuildInfoFromImage_def bind_eff_def ret_def call_def Let_def
        or_default_def)
qed

text \<open>
  C4. Whenever the Dockerfile-backed resolution returns, its user is the Dockerfile's
  USER when one is found (and is not empty), else the user of the inspected base image
  when it has one, else \<open>root\<close>; whenever the image-backed resolution returns, its user
  is the inspected image's user when it has one, else \<open>root\<close>. In particular USER
  alice over image user bob gives alice, no USER with image user bob gives bob, and
  neither gives root.
\<close>

theorem effective_user_precedence:
  "(internalGetImageBuildInfoFromDockerfile P inspect dockerfile flag = (es, Inr info) \<longrightarrow>
      (\<forall>u. findUserStatement P dockerfile = Some u \<and> u \<noteq> [] \<longrightarrow> user info = u) \<and>
      (\<forall>b d. (findUserStatement P dockerfile = None \<or> findUserStatement P dockerfile = Some []) \<and>
             findBaseImage P dockerfile = Some b \<and> b \<noteq> [] \<and> inspect b = Inr d \<and>
             Config_User d \<noteq> [] \<longrightarrow> user info = Config_User d) \<and>
      ((findUserStatement P dockerfile = None \<or> findUserStatement P dockerfile = Some []) \<and>
       (findBaseImage P dockerfile = None \<or> findBaseImage P dockerfile = Some [] \<or>
        (\<exists>b d. findBaseImage P dockerfile = Some b \<and> inspect b = Inr d \<and> Config_User d = []))
       \<longrightarrow> user info = str ''root'')) \<and>
   (getImageBuildInfoFromImage P imageName flag = (es', Inr info') \<longrightarrow>
      (\<forall>d. inspectDockerImage P imageName = Inr d \<and> Config_User d \<noteq> []
           \<longrightarrow> user info' = Config_User d) \<and>
      (\<forall>d. inspectDockerImage P imageName = Inr d \<and> Config_User d = []
           \<longrightarrow> user info' = str ''root''))"
proof (intro conjI impI)
  assume a: "internalGetImageBuildInfoFromDockerfile P inspect dockerfile flag = (es, Inr info)"
  note u = dockerfile_user [OF a]
  show "\<forall>u. findUserStatement P dockerfile = Some u \<and> u \<noteq> [] \<longrightarrow> user info = u"
    using u by (auto simp: or_default_def or_else_def)
  show "\<forall>b d. (findUserStatement P dockerfile = None \<or> findUserStatement P dockerfile = Some []) \<and>
             findBaseImage P dockerfile = Some b \<and> b \<noteq> [] \<and> inspect b = Inr d \<and>
             Config_User d \<noteq> [] \<longrightarrow> user info = Config_User d"
    using u by (auto simp: or_default_def or_else_def inspected_user_def)
  show "user info = str ''root''"
    if "(findUserStatement P dockerfile = None \<or> findUserStatement P dockerfile = Some []) \<and>
       (findBaseImage P dockerfile = None \<or> findBaseImage P dockerfile = Some [] \<or>
        (\<exists>b d. findBaseImage P dockerfile = Some b \<and> inspect b = Inr d \<and> Config_User d = []))"
    using u that by (auto simp: or_default_def or_else_def inspected_user_def)
next
  assume a: "getImageBuildInfoFromImage P imageName flag = (es', Inr info')"
  show "\<forall>d. inspectDockerImage P imageName = Inr d \<and> Config_User d \<noteq> []
           \<longrightarrow> user info' = Config_User d"
    using image_user [OF a] by auto
  show "\<forall>d. inspectDockerImage P imageName = Inr d \<and> Config_User d = []
           \<longrightarrow> user info' = str ''root''"
    using image_user [OF a] by auto
qed

lemma example_dockerfile:
  "b \<noteq> [] \<Longrightarrow>
   internalGetImageBuildInfoFromDockerfile (example_params du (Some b) iu found)
     (inspectDockerImage (example_params du (Some b) iu found)) df flag =
   ([InspectDockerImage b],
    Inr \<lparr>user = or_default (or_else du (Some iu)) (str ''root''), metadata = []\<rparr>)"
  by (simp add: internalGetImageBuildInfoFromDockerfile_def example_params_def bind_eff_def
      call_def ret_def getImageMetadata_def internalGetImageMetadata_def)

lemma example_dockerfile_no_base:
  "internalGetImageBuildInfoFromDockerfile (example_params du None iu found)
     (inspectDockerImage (example_params du None iu found)) df flag =
   ([], Inr \<lparr>user = or_default (or_else du None) (str ''root''), metadata = []\<rparr>)"
  by (simp add: internalGetImageBuildInfoFromDockerfile_def example_params_def bind_eff_def
      call_def ret_def getImageMetadata_def internalGetImageMetadata_def)

lemma example_image:
  "getImageBuildInfoFromImage (example_params du b iu found) n flag =
   ([InspectDockerImage n],
    Inr \<lparr>user = or_default (Some iu) (str ''root''), metadata = [],
         imageDetails = \<lparr>Config_User = iu, Config_Labels = None\<rparr>\<rparr>)"
  by (simp add: getImageBuildInfoFromImage_def example_params_def bind_eff_def
      call_def ret_def getImageMetadata_def internalGetImageMetadata_def)

theorem effective_user_precedence_witness:
  "internalGetImageBuildInfoFromDockerfile
     (example_params (Some (str ''alice'')) (Some (str ''base'')) (str ''bob'') (Promise True))
     (inspectDockerImage
        (example_params (Some (str ''alice'')) (Some (str ''base'')) (str ''bob'') (Promise True)))
     (str ''FROM base'') True =
   ([InspectDockerImage (str ''base'')], Inr \<lparr>user = str ''alice'', metadata = []\<rparr>) \<and>
   internalGetImageBuildInfoFromDockerfile
     (example_params None (Some (str ''base'')) (str ''bob'') (Promise True))
     (inspectDockerImage (example_params None (Some (str ''base'')) (str ''bob'') (Promise True)))
     (str ''FROM base'') True =
   ([InspectDockerImage (str ''base'')], Inr \<lparr>user = str ''bob'', metadata = []\<rparr>) \<and>
   internalGetImageBuildInfoFromDockerfile
     (example_params None None (str ''bob'') (Promise True))
     (inspectDockerImage (example_params None None (str ''bob'') (Promise True)))
     (str ''FROM base'') True =
   ([], Inr \<lparr>user = str ''root'', metadata = []\<rparr>) \<and>
   getImageBuildInfoFromImage
     (example_params None None (str ''bob'') (Promise True)) (str ''base'') True =
   ([InspectDockerImage (str ''base'')],
    Inr \<lparr>user = str ''bob'', metadata = [],
         imageDetails = \<lparr>Config_User = str ''bob'', Config_Labels = None\<rparr>\<rparr>)"
proof -
  let ?df = "str ''FROM base''"
  let ?A = "example_params (Some (str ''alice'')) (Some (str ''base'')) (str ''bob'') (Promise True)"
  let ?B = "example_params None (Some (str ''base'')) (str ''bob'') (Promise True)"
  let ?C = "example_params None None (str ''bob'') (Promise True)"
  let ?d = "\<lparr>Config_User = str ''bob'', Config_Labels = None\<rparr>"
  have b: "str ''base'' \<noteq> []" and al: "str ''alice'' \<noteq> []" and bo: "str ''bob'' \<noteq> []"
    by (simp_all add: str_def)
  have ea: "internalGetImageBuildInfoFromDockerfile ?A (inspectDockerImage ?A) ?df True =
      ([InspectDockerImage (str ''base'')],
       Inr \<lparr>user = or_default (or_else (Some (str ''alice'')) (Some (str ''bob''))) (str ''root''),
            metadata = []\<rparr>)"
    by (rule example_dockerfile [OF b])
  have fa: "findUserStatement ?A ?df = Some (str ''alice'')"
    by (simp add: example_params_def)
  have ua: "or_default (or_else (Some (str ''alice'')) (Some (str ''bob''))) (str ''root'') =
            str ''alice''"
    using effective_user_precedence [of ?A "inspectDockerImage ?A" ?df True] ea fa al
    by fastforce
  have eb: "internalGetImageBuildInfoFromDockerfile ?B (inspectDockerImage ?B) ?df True =
      ([InspectDockerImage (str ''base'')],
       Inr \<lparr>user = or_default (or_else None (Some (str ''bob''))) (str ''root''),
            metadata = []\<rparr>)"
    by (rule example_dockerfile [OF b])
  have fb: "findUserStatement ?B ?df = None" "findBaseImage ?B ?df = Some (str ''base'')"
    "inspectDockerImage ?B (str ''base'') = Inr ?d"
    by (simp_all add: example_params_def)
  have ub: "or_default (or_else None (Some (str ''bob''))) (str ''root'') = str ''bob''"
    using effective_user_precedence [of ?B "inspectDockerImage ?B" ?df True] eb fb b bo
    by fastforce
  have ec: "internalGetImageBuildInfoFromDockerfile ?C (inspectDockerImage ?C) ?df True =
      ([], Inr \<lparr>user = or_default (or_else None None) (str ''root''), metadata = []\<rparr>)"
    by (rule example_dockerfile_no_base)
  have fc: "findUserStatement ?C ?df = None" "findBaseImage ?C ?df = None"
    "inspectDockerImage ?C (str ''base'') = Inr ?d"
    by (simp_all add: example_params_def)
  have uc: "or_default (or_else None None) (str ''root'') = str ''root''"
    using effective_user_precedence [of ?C "inspectDockerImage ?C" ?df True] ec fc
    by fastforce
  have ei: "getImageBuildInfoFromImage ?C (str ''base'') True =
      ([InspectDockerImage (str ''base'')],
       Inr \<lparr>user = or_default (Some (str ''bob'')) (str ''root''), metadata = [],
            imageDetails = ?d\<rparr>)"
    by (rule example_image)
  have ui: "or_default (Some (str ''bob'')) (str ''root'') = str ''bob''"
    using effective_user_precedence [where P = ?C and imageName = "str ''base''" and flag = True]
      ei fc bo
    by fastforce
  show ?thesis
    using ea eb ec ei by (simp only: ua ub uc ui)
qed

text \<open>
  C9. An empty string counts as absent: when the USER lookup gives the empty string the
  user is the inspected image's user, or \<open>root\<close> when that is empty too or there is no
  base image; when the inspected image's user is empty and no USER is found, the user
  is \<open>root\<close>, in the Dockerfile-backed and in the image-backed resolution.
\<close>

theorem empty_user_is_absent:
  "(internalGetImageBuildInfoFromDockerfile P inspect dockerfile flag = (es, Inr info) \<longrightarrow>
      (\<forall>b d. findUserStatement P dockerfile = Some [] \<and> findBaseImage P dockerfile = Some b \<and>
             b \<noteq> [] \<and> inspect b = Inr d \<and> Config_User d \<noteq> [] \<longrightarrow> user info = Config_User d) \<and>
      (\<forall>b d. (findUserStatement P dockerfile = Some [] \<or> findUserStatement P dockerfile = None) \<and>
             findBaseImage P dockerfile = Some b \<and> b \<noteq> [] \<and> inspect b = Inr d \<and>
             Config_User d = [] \<longrightarrow> user info = str ''root'') \<and>
      (findUserStatement P dockerfile = Some [] \<and>
       (findBaseImage P dockerfile = None \<or> findBaseImage P dockerfile = Some [])
       \<longrightarrow> user info = str ''root'')) \<and>
   (getImageBuildInfoFromImage P imageName flag = (es', Inr info') \<longrightarrow>
      (\<forall>d. inspectDockerImage P imageName = Inr d \<and> Config_User d = []
           \<longrightarrow> user info' = str ''root''))"
proof (intro conjI impI)
  assume a: "internalGetImageBuildInfoFromDockerfile P inspect dockerfile flag = (es, Inr info)"
  note u = dockerfile_user [OF a]
  show "\<forall>b d. findUserStatement P dockerfile = Some [] \<and> findBaseImage P dockerfile = Some b \<and>
             b \<noteq> [] \<and> inspect b = Inr d \<and> Config_User d \<noteq> [] \<longrightarrow> user info = Config_User d"
    using u by (auto simp: or_default_def or_else_def inspected_user_def)
  show "\<forall>b d. (findUserStatement P dockerfile = Some [] \<or> findUserStatement P dockerfile = None) \<and>
             findBaseImage P dockerfile = Some b \<and> b \<noteq> [] \<and> inspect b = Inr d \<and>
             Config_User d = [] \<longrightarrow> user info = str ''root''"
    using u by (auto simp: or_default_def or_else_def inspected_user_def)
  show "user info = str ''root''"
    if "findUserStatement P dockerfile = Some [] \<and>
       (findBaseImage P dockerfile = None \<or> findBaseImage P dockerfile = Some [])"
    using u that by (auto simp: or_default_def or_else_def inspected_user_def)
next
  assume a: "getImageBuildInfoFromImage P imageName flag = (es', Inr info')"
  show "\<forall>d. inspectDockerImage P imageName = Inr d \<and> Config_User d = []
           \<longrightarrow> user info' = str ''root''"
    using image_user [OF a] by auto
qed

theorem empty_user_is_absent_witness:
  "internalGetImageBuildInfoFromDockerfile
     (example_params (Some []) (Some (str ''base'')) [] (Promise True))
     (inspectDockerImage (example_params (Some []) (Some (str ''base'')) [] (Promise True)))
     (str ''FROM base'') True =
   ([InspectDockerImage (str ''base'')], Inr \<lparr>user = str ''root'', metadata = []\<rparr>) \<and>
   internalGetImageBuildInfoFromDockerfile
     (example_params (Some []) (Some (str ''base'')) (str ''bob'') (Promise True))
     (inspectDockerImage (example_params (Some []) (Some (str ''base'')) (str ''bob'') (Promise True)))
     (str ''FROM base'') True =
   ([InspectDockerImage (str ''base'')], Inr \<lparr>user = str ''bob'', metadata = []\<rparr>) \<and>
   internalGetImageBuildInfoFromDockerfile
     (example_params (Some []) None [] (Promise True))
     (inspectDockerImage (example_params (Some []) None [] (Promise True)))
     (str ''FROM base'') True =
   ([], Inr \<lparr>user = str ''root'', metadata = []\<rparr>) \<and>
   getImageBuildInfoFromImage
     (example_params None None [] (Promise True)) (str ''base'') True =
   ([InspectDockerImage (str ''base'')],
    Inr \<lparr>user = str ''root'', metadata = [],
         imageDetails = \<lparr>Config_User = [], Config_Labels = None\<rparr>\<rparr>)"
proof -
  let ?df = "str ''FROM base''"
  let ?A = "example_params (Some []) (Some (str ''base'')) [] (Promise True)"
  let ?B = "example_params (Some []) (Some (str ''base'')) (str ''bob'') (Promise True)"
  let ?C = "example_params (Some []) None [] (Promise True)"
  let ?D = "example_params None None [] (Promise True)"
  have b: "str ''base'' \<noteq> []" and bo: "str ''bob'' \<noteq> []"
    by (simp_all add: str_def)
  have ea: "internalGetImageBuildInfoFromDockerfile ?A (inspectDockerImage ?A) ?df True =
      ([InspectDockerImage (str ''base'')],
       Inr \<lparr>user = or_default (or_else (Some []) (Some [])) (str ''root''), metadata = []\<rparr>)"
    by (rule example_dockerfile [OF b])
  have fa: "findUserStatement ?A ?df = Some []" "findBaseImage ?A ?df = Some (str ''base'')"
    "inspectDockerImage ?A (str ''base'') = Inr \<lparr>Config_User = [], Config_Labels = None\<rparr>"
    by (simp_all add: example_params_def)
  have ua: "or_default (or_else (Some []) (Some [])) (str ''root'') = str ''root''"
    using empty_user_is_absent [of ?A "inspectDockerImage ?A" ?df True] ea fa b
    by fastforce
  have eb: "internalGetImageBuildInfoFromDockerfile ?B (inspectDockerImage ?B) ?df True =
      ([InspectDockerImage (str ''base'')],
       Inr \<lparr>user = or_default (or_else (Some []) (Some (str ''bob''))) (str ''root''),
            metadata = []\<rparr>)"
    by (rule example_dockerfile [OF b])
  have fb: "findUserStatement ?B ?df = Some []" "findBaseImage ?B ?df = Some (str ''base'')"
    "inspectDockerImage ?B (str ''base'') = Inr \<lparr>Config_User = str ''bob'', Config_Labels = None\<rparr>"
    by (simp_all add: example_params_def)
  have ub: "or_default (or_else (Some []) (Some (str ''bob''))) (str ''root'') = str ''bob''"
    using empty_user_is_absent [of ?B "inspectDockerImage ?B" ?df True] eb fb b bo
    by fastforce
  have ec: "internalGetImageBuildInfoFromDockerfile ?C (inspectDockerImage ?C) ?df True =
      ([], Inr \<lparr>user = or_default (or_else (Some []) None) (str ''root''), metadata = []\<rparr>)"
    by (rule example_dockerfile_no_base)
  have fc: "findUserStatement ?C ?df = Some []" "findBaseImage ?C ?df = None"
    by (simp_all add: example_params_def)
  have uc: "or_default (or_else (Some []) None) (str ''root'') = str ''root''"
    using empty_user_is_absent [of ?C "inspectDockerImage ?C" ?df True] ec fc
    by fastforce
  have ei: "getImageBuildInfoFromImage ?D (str ''base'') True =
      ([InspectDockerImage (str ''base'')],
       Inr \<lparr>user = or_default (Some []) (str ''root''), metadata = [],
            imageDetails = \<lparr>Config_User = [], Config_Labels = None\<rparr>\<rparr>)"
    by (rule example_image)
  have fd: "inspectDockerImage ?D (str ''base'') = Inr \<lparr>Config_User = [], Config_Labels = None\<rparr>"
    by (simp add: example_params_def)
  have ui: "or_default (Some []) (str ''root'') = str ''root''"
    using empty_user_is_absent [where P = ?D and imageName = "str ''base''" and flag = True]
      ei fd
    by fastforce
  show ?thesis
    using ea eb ec ei by (simp only: ua ub uc ui)
qed

text \<open>
  C2, as stated, fails: with the flag disabled the Dockerfile-backed resolution returns
  the empty sequence, while the sequence derived from the configuration is never empty.
\<close>

theorem dockerfile_flag_disabled_counterexample:
  "internalGetImageBuildInfoFromDockerfile
     (example_params None (Some (str ''base'')) (str ''bob'') (Promise True))
     (inspectDockerImage (example_params None (Some (str ''base'')) (str ''bob'') (Promise True)))
     (str ''FROM base'') False =
   ([InspectDockerImage (str ''base'')], Inr \<lparr>user = str ''bob'', metadata = []\<rparr>) \<and>
   getDevcontainerMetadata [(str ''dockerFile'', JStr (str ''Dockerfile''))] (Array []) =
     [JObj []] \<and>
   metadata \<lparr>user = str ''bob'', metadata = []\<rparr> \<noteq>
     getDevcontainerMetadata [(str ''dockerFile'', JStr (str ''Dockerfile''))] (Array [])"
proof -
  have b: "str ''base'' \<noteq> []" and bo: "str ''bob'' \<noteq> []"
    by (simp_all add: str_def)
  have m: "getDevcontainerMetadata [(str ''dockerFile'', JStr (str ''Dockerfile''))] (Array []) =
             [JObj []]"
    by (simp add: getDevcontainerMetadata_def features_list_def pick_def
        pickSingleContainerConfigProperties_def pickConfigProperties_def str_def)
  show ?thesis
    using example_dockerfile [OF b, of None "str ''bob''" "Promise True" "str ''FROM base''" False] bo
    by (simp add: m or_default_def or_else_def)
qed

text \<open>
  C2, amended. With the flag disabled, for every Dockerfile text and every inspection
  result, the Dockerfile-backed resolution never calls \<open>JSON.parse\<close> and writes no
  diagnostic, and when it returns its metadata sequence is empty: no base-image
  contribution and no entry derived from the configuration. The sequence derived from
  the configuration and the features is what \<open>getImageMetadataFromContainer\<close> returns
  when the flag is disabled.
\<close>

theorem dockerfile_flag_disabled:
  "(\<exists>es r. internalGetImageBuildInfoFromDockerfile P inspect dockerfile False = (es, r) \<and>
           (\<forall>s. JSONParse s \<notin> set es) \<and> (\<forall>m. Write m \<notin> set es) \<and>
           (\<forall>info. r = Inr info \<longrightarrow> metadata info = [])) \<and>
   getImageMetadataFromContainer E containerDetails config fc False =
     ([], Inr (getDevcontainerMetadata config fc))"
proof (rule conjI)
  show "getImageMetadataFromContainer E containerDetails config fc False =
     ([], Inr (getDevcontainerMetadata config fc))"
    by (simp add: getImageMetadataFromContainer_def ret_def)
next
  show "\<exists>es r. internalGetImageBuildInfoFromDockerfile P inspect dockerfile False = (es, r) \<and>
           (\<forall>s. JSONParse s \<notin> set es) \<and> (\<forall>m. Write m \<notin> set es) \<and>
           (\<forall>info. r = Inr info \<longrightarrow> metadata info = [])"
  proof (cases "findBaseImage P dockerfile")
    case None
    then show ?thesis
      by (simp add: internalGetImageBuildInfoFromDockerfile_def bind_eff_def ret_def Let_def)
  next
    case (Some b)
    show ?thesis
    proof (cases "b = []")
      case True
      with Some show ?thesis
        by (simp add: internalGetImageBuildInfoFromDockerfile_def bind_eff_def ret_def Let_def)
    next
      case False
      with Some show ?thesis
        by (cases "inspect b")
          (simp_all add: internalGetImageBuildInfoFromDockerfile_def bind_eff_def ret_def
            call_def Let_def getImageMetadata_def internalGetImageMetadata_disabled)
    qed
  qed
qed

theorem dockerfile_flag_disabled_witness:
  "internalGetImageBuildInfoFromDockerfile
     (example_params None (Some (str ''base'')) (str ''bob'') (Promise True))
     (inspectDockerImage (example_params None (Some (str ''base'')) (str ''bob'') (Promise True)))
     (str ''FROM base'') False =
   ([InspectDockerImage (str ''base'')], Inr \<lparr>user = str ''bob'', metadata = []\<rparr>) \<and>
   metadata \<lparr>user = str ''bob'', metadata = []\<rparr> = []"
proof -
  let ?B = "example_params None (Some (str ''base'')) (str ''bob'') (Promise True)"
  have b: "str ''base'' \<noteq> []" and bo: "str ''bob'' \<noteq> []"
    by (simp_all add: str_def)
  have rb: "internalGetImageBuildInfoFromDockerfile ?B (inspectDockerImage ?B) (str ''FROM base'') False =
     ([InspectDockerImage (str ''base'')], Inr \<lparr>user = str ''bob'', metadata = []\<rparr>)"
    using example_dockerfile [OF b, of None "str ''bob''" "Promise True" "str ''FROM base''" False] bo
    by (simp add: or_default_def or_else_def)
  show ?thesis
    using dockerfile_flag_disabled [of ?B "inspectDockerImage ?B" "str ''FROM base''"] rb
    by auto
qed

lemma missing_dockerfile_synchronous:
  assumes "isDockerFileConfig P config" and "isFile P (dockerfilePath P config) = Plain False"
  shows "getImageBuildInfo P config flag =
           ([IsFile (dockerfilePath P config)],
            Inl (ContainerError (str ''Dockerfile ('' @ dockerfilePath P config @
                                 str '') not found.'')))"
  using assms by (simp add: getImageBuildInfo_def bind_eff_def call_def throw_def Let_def)

lemma missing_dockerfile_asynchronous:
  assumes "isDockerFileConfig P config" and "isFile P (dockerfilePath P config) = Promise found"
    and "readFile P (dockerfilePath P config) = Inl e"
  shows "getImageBuildInfo P config flag =
           ([IsFile (dockerfilePath P config), ReadFile (dockerfilePath P config)], Inl e)"
  using assms by (simp add: getImageBuildInfo_def bind_eff_def call_def throw_def Let_def)

text \<open>
  C1. The Dockerfile of a Dockerfile-backed configuration is missing: \<open>isFile\<close>
  resolves to false and \<open>readFile\<close> rejects. The promise that \<open>isFile\<close> returns is
  negated without \<open>await\<close>, so the test never fires: the file is read all the same, and
  the resolution fails with the rejection of \<open>readFile\<close>, not with the ContainerError
  that names the path. With a synchronous \<open>isFile\<close> the ContainerError would be thrown
  before any read (\<open>missing_dockerfile_synchronous\<close>).
\<close>

theorem missing_dockerfile_not_reported:
  "getImageBuildInfo (example_params None (Some (str ''base'')) (str ''bob'') (Promise False))
     [(str ''dockerFile'', JStr (str ''Dockerfile''))] True =
   ([IsFile (str ''/w/Dockerfile''), ReadFile (str ''/w/Dockerfile'')],
    Inl (Rejected (str ''ENOENT'')))"
  by (simp add: getImageBuildInfo_def example_params_def bind_eff_def call_def throw_def Let_def)

end
